theory Spec2Isabelle
  imports Complex_Main "HOL-Library.Sublist"
begin

section \<open>The development proxy of templ: \<open>cmd/templ/generatecmd/proxy/proxy.go\<close>\<close>

text \<open>
  The file holds three things: the response rewriter (\<open>modifyResponse\<close> and the two
  body updaters), the retrying transport (\<open>roundTripper.RoundTrip\<close>) and the helper
  \<open>NotifyProxy\<close>. Each Go function is a HOL function of the same name. A Go function
  that mutates its \<open>*http.Response\<close> argument and returns an \<open>error\<close> becomes a function
  that returns the response after the call together with the error (\<open>None\<close> for
  \<open>nil\<close>). Calls into the Go standard library are either written out from the
  library's documented behaviour (\<open>strings\<close>, \<open>strconv\<close>, \<open>http.Header\<close>) or, where
  they reach the outside world or depend on the platform (gzip codec, network
  transport, HTTP client, \<open>math.Pow\<close> and the conversion of a float that is out of
  range), taken as parameters.
\<close>

subsection \<open>Errors\<close>

text \<open>
  \<open>MaxRetries\<close> is the value built by \<open>fmt.Errorf("max retries reached")\<close> at the end
  of \<open>RoundTrip\<close>. Every other error of the program is produced by a library call and
  only passed on; it carries the library's message.
\<close>

datatype error = MaxRetries | External string

subsection \<open>Package \<open>strings\<close> and \<open>strconv\<close>\<close>

text \<open>A Go \<open>string\<close> is a sequence of bytes; \<open>len\<close> counts bytes.\<close>

text \<open>\<open>strings.Index(s, substr)\<close>: the first position where \<open>substr\<close> starts, \<open>None\<close> for -1.\<close>

fun Index :: "string \<Rightarrow> string \<Rightarrow> nat option" where
  "Index [] substr = (if substr = [] then Some 0 else None)"
| "Index (c # cs) substr =
     (if prefix substr (c # cs) then Some 0 else map_option Suc (Index cs substr))"

lemma Index_Some_bound: "Index s substr = Some i \<Longrightarrow> i + length substr \<le> length s"
proof (induction s arbitrary: i)
  case Nil
  then show ?case by (simp split: if_splits)
next
  case (Cons c cs)
  show ?case
  proof (cases "prefix substr (c # cs)")
    case True
    with Cons.prems have "i = 0" by simp
    moreover from True have "length substr \<le> length (c # cs)" by (rule prefix_length_le)
    ultimately show ?thesis by simp
  next
    case False
    with Cons.prems obtain k where "Index cs substr = Some k" "i = Suc k" by auto
    with Cons.IH show ?thesis by fastforce
  qed
qed

text \<open>
  \<open>strings.Count(s, substr)\<close> for a non-empty \<open>substr\<close>: the number of non-overlapping
  instances, found from the left. (For an empty \<open>substr\<close> Go counts UTF-8 sequences;
  the program never asks for that, and the model answers 0 there.)
\<close>

function Count :: "string \<Rightarrow> string \<Rightarrow> nat" where
  "Count s substr =
     (if substr = [] then 0
      else case Index s substr of
             None \<Rightarrow> 0
           | Some i \<Rightarrow> Suc (Count (drop (i + length substr) s) substr))"
  by pat_completeness auto
termination
proof (relation "measure (\<lambda>(s, substr). length s)")
  show "wf (measure (\<lambda>(s, substr). length s))" by simp
next
  fix s substr :: string and i
  assume ne: "substr \<noteq> []" and ix: "Index s substr = Some i"
  from Index_Some_bound [OF ix] ne have "0 < length s" by (cases substr) auto
  with ne show "((drop (i + length substr) s, substr), (s, substr))
      \<in> measure (\<lambda>(s, substr). length s)" by simp
qed

declare Count.simps [simp del]

text \<open>
  The copying loop of \<open>strings.Replace\<close>: \<open>n\<close> rounds, each copying the text up to
  the next instance of \<open>old\<close>, then \<open>new\<close>, and going on behind the instance.
\<close>

fun replaceLoop :: "nat \<Rightarrow> string \<Rightarrow> string \<Rightarrow> string \<Rightarrow> string" where
  "replaceLoop 0 s old new = s"
| "replaceLoop (Suc n) s old new =
     (case Index s old of
        None \<Rightarrow> s
      | Some j \<Rightarrow> take j s @ new @ replaceLoop n (drop (j + length old) s) old new)"

text \<open>
  \<open>strings.Replace(s, old, new, n)\<close>: the first \<open>n\<close> non-overlapping instances of
  \<open>old\<close> replaced by \<open>new\<close>, all of them when \<open>n < 0\<close>. As for \<open>Count\<close>, \<open>old\<close> is
  taken to be non-empty.
\<close>

definition Replace :: "string \<Rightarrow> string \<Rightarrow> string \<Rightarrow> int \<Rightarrow> string" where
  "Replace s old new n =
     (if old = new \<or> n = 0 then s
      else let m = Count s old in
        if m = 0 then s
        else replaceLoop (if n < 0 \<or> int m < n then m else nat n) s old new)"

text \<open>\<open>strconv.Itoa\<close>: decimal digits, with a minus sign for a negative number.\<close>

fun digits :: "nat \<Rightarrow> string" where
  "digits n =
     (if n < 10 then [''0123456789'' ! n]
      else digits (n div 10) @ [''0123456789'' ! (n mod 10)])"

definition Itoa :: "int \<Rightarrow> string" where
  "Itoa i = (if i < 0 then CHR ''-'' # digits (nat (- i)) else digits (nat i))"

subsection \<open>\<open>http.Header\<close>\<close>

text \<open>
  A header is a Go map from canonical keys to lists of values. \<open>Get\<close> and \<open>Set\<close>
  canonicalise the key they are given (\<open>textproto.CanonicalMIMEHeaderKey\<close>): the first
  letter and every letter after a hyphen in upper case, the rest in lower case; a key
  with a byte that is not a token character is left as it is.
\<close>

type_synonym header = "string \<rightharpoonup> string list"

definition isLower :: "char \<Rightarrow> bool" where
  "isLower c = (97 \<le> (of_char c :: nat) \<and> (of_char c :: nat) \<le> 122)"

definition isUpper :: "char \<Rightarrow> bool" where
  "isUpper c = (65 \<le> (of_char c :: nat) \<and> (of_char c :: nat) \<le> 90)"

definition isDigit :: "char \<Rightarrow> bool" where
  "isDigit c = (48 \<le> (of_char c :: nat) \<and> (of_char c :: nat) \<le> 57)"

definition validHeaderFieldByte :: "char \<Rightarrow> bool" where
  "validHeaderFieldByte c =
     (isLower c \<or> isUpper c \<or> isDigit c \<or>
      (of_char c :: nat) \<in> {33, 35, 36, 37, 38, 39, 42, 43, 45, 46, 94, 95, 96, 124, 126})"

fun canonicalLoop :: "bool \<Rightarrow> string \<Rightarrow> string" where
  "canonicalLoop upper [] = []"
| "canonicalLoop upper (c # cs) =
     (let c' = (if upper \<and> isLower c then char_of ((of_char c :: nat) - 32)
                else if \<not> upper \<and> isUpper c then char_of ((of_char c :: nat) + 32)
                else c)
      in c' # canonicalLoop (c' = CHR ''-'') cs)"

definition CanonicalMIMEHeaderKey :: "string \<Rightarrow> string" where
  "CanonicalMIMEHeaderKey s =
     (if list_all validHeaderFieldByte s then canonicalLoop True s else s)"

text \<open>\<open>h.Get(key)\<close>: the first value stored under the key, \<open>""\<close> when there is none.\<close>

definition Header_Get :: "header \<Rightarrow> string \<Rightarrow> string" where
  "Header_Get h key =
     (case h (CanonicalMIMEHeaderKey key) of
        None \<Rightarrow> []
      | Some [] \<Rightarrow> []
      | Some (v # vs) \<Rightarrow> v)"

text \<open>\<open>h.Set(key, value)\<close>: the key now holds exactly this one value.\<close>

definition Header_Set :: "header \<Rightarrow> string \<Rightarrow> string \<Rightarrow> header" where
  "Header_Set h key v = h(CanonicalMIMEHeaderKey key \<mapsto> [v])"

subsection \<open>Bodies and responses\<close>

text \<open>
  A body is an \<open>io.ReadCloser\<close>. The program meets three kinds: the sentinel
  \<open>http.NoBody\<close>; a stream that arrives from the network, which delivers some bytes
  and then ends, at the end of the data or with a read error; and an in-memory reader
  that the program builds itself (\<open>io.NopCloser\<close> around a \<open>bytes.Reader\<close>, a
  \<open>strings.Reader\<close> or a \<open>bytes.Buffer\<close>). The value of a body is what is still to be
  read from it: the bytes not yet read and, for a stream, how it ends. Reading takes
  bytes away.
\<close>

datatype body = NoBody | Stream string "error option" | Buffer string

text \<open>The bytes still to be read, and the body once \<open>n\<close> more of them have been read.\<close>

fun pending :: "body \<Rightarrow> string" where
  "pending NoBody = []"
| "pending (Stream bs e) = bs"
| "pending (Buffer bs) = bs"

fun advance :: "nat \<Rightarrow> body \<Rightarrow> body" where
  "advance n NoBody = NoBody"
| "advance n (Stream bs e) = Stream (drop n bs) e"
| "advance n (Buffer bs) = Buffer (drop n bs)"

text \<open>
  \<open>io.ReadAll\<close>: all bytes up to the end of the data, or the read error. Whatever
  it returns, it has read the body to its end: \<open>drained b\<close> is what is left of \<open>b\<close>.
\<close>

fun io_ReadAll :: "body \<Rightarrow> error + string" where
  "io_ReadAll NoBody = Inr []"
| "io_ReadAll (Stream bs None) = Inr bs"
| "io_ReadAll (Stream bs (Some e)) = Inl e"
| "io_ReadAll (Buffer bs) = Inr bs"

definition drained :: "body \<Rightarrow> body" where
  "drained b = advance (length (pending b)) b"

text \<open>
  The fields of \<open>http.Response\<close> that the program reads or writes, and the status
  code, which it never looks at. \<open>ContentLength\<close> is an \<open>int64\<close>; the lengths stored in
  it are lengths of byte slices and cannot overflow.
\<close>

record response =
  StatusCode :: int
  Header :: header
  Body :: body
  ContentLength :: int

subsection \<open>The gzip codec\<close>

text \<open>
  Package \<open>compress/gzip\<close> is a parameter of the model: one function for each call
  that can return an error. \<open>gzip_NewReader\<close> reads and checks the gzip header of a
  body and gives a decoder; \<open>gzip_ReadAll\<close> is \<open>io.ReadAll\<close> on that decoder, which
  goes on reading from the rest of the body. Both read from the body they are given,
  whether they succeed or fail, and say how many of its bytes they have read.
  \<open>gzip_Write\<close> is \<open>gzw.Write\<close> on a fresh writer over an empty buffer and gives the
  writer; \<open>gzip_Close\<close> is \<open>gzw.Close\<close> and gives the final contents of the buffer.
\<close>

record ('z, 'w) gzip =
  gzip_NewReader :: "body \<Rightarrow> (error + 'z) \<times> nat"
  gzip_ReadAll :: "'z \<Rightarrow> body \<Rightarrow> (error + string) \<times> nat"
  gzip_Write :: "string \<Rightarrow> error + 'w"
  gzip_Close :: "'w \<Rightarrow> error + string"

subsection \<open>The response rewriter\<close>

definition scriptTag :: string where
  "scriptTag = ''<script src=\"/_templ/reload/script.js\"></script>''"

definition insertScriptTagIntoBody :: "string \<Rightarrow> string" where
  "insertScriptTagIntoBody body = Replace body ''</body>'' (scriptTag @ ''</body>'') (- 1)"

text \<open>
  Both updaters read from \<open>r.Body\<close> before they can fail. When one of them returns
  an error it has assigned nothing, and the response it leaves behind is \<open>r\<close> with
  its body read as far as the failed call has read it.
\<close>

definition updatePlainResponse :: "response \<Rightarrow> response \<times> error option" where
  "updatePlainResponse r =
     (case io_ReadAll (Body r) of
        Inl err \<Rightarrow> (r\<lparr>Body := drained (Body r)\<rparr>, Some err)
      | Inr body \<Rightarrow>
          let updated = insertScriptTagIntoBody body in
          (r\<lparr>Body := Buffer updated,
             ContentLength := int (length updated),
             Header := Header_Set (Header r) ''Content-Length'' (Itoa (int (length updated)))\<rparr>,
           None))"

definition updateGzipResponse :: "('z, 'w) gzip \<Rightarrow> response \<Rightarrow> response \<times> error option" where
  "updateGzipResponse G r =
     (case gzip_NewReader G (Body r) of
        (Inl err, n) \<Rightarrow> (r\<lparr>Body := advance n (Body r)\<rparr>, Some err)
      | (Inr plainr, n) \<Rightarrow>
     (case gzip_ReadAll G plainr (advance n (Body r)) of
        (Inl err, m) \<Rightarrow> (r\<lparr>Body := advance m (advance n (Body r))\<rparr>, Some err)
      | (Inr body, m) \<Rightarrow>
          let updated = insertScriptTagIntoBody body in
     (case gzip_Write G updated of
        Inl err \<Rightarrow> (r\<lparr>Body := advance m (advance n (Body r))\<rparr>, Some err)
      | Inr gzw \<Rightarrow>
     (case gzip_Close G gzw of
        Inl err \<Rightarrow> (r\<lparr>Body := advance m (advance n (Body r))\<rparr>, Some err)
      | Inr buf \<Rightarrow>
          (r\<lparr>Body := Buffer buf,
             ContentLength := int (length buf),
             Header := Header_Set (Header r) ''Content-Length'' (Itoa (int (length buf)))\<rparr>,
           None)))))"

definition modifyResponse :: "('z, 'w) gzip \<Rightarrow> response \<Rightarrow> response \<times> error option" where
  "modifyResponse G r =
     (if Header_Get (Header r) ''templ-skip-modify'' = ''true'' then (r, None)
      else if \<not> prefix ''text/html'' (Header_Get (Header r) ''Content-Type'') then (r, None)
      else if Header_Get (Header r) ''Content-Encoding'' = ''gzip'' then updateGzipResponse G r
      else updatePlainResponse r)"

subsection \<open>The retrying transport\<close>

text \<open>
  The fields of \<open>http.Request\<close> that matter here. A nil \<open>Body\<close> is \<open>None\<close>.
  \<open>r.Clone\<close> copies every field; the clone's \<open>Body\<close> is the original's until the
  loop replaces it.
\<close>

record request =
  Method :: string
  URL :: string
  reqHeader :: header
  reqBody :: "body option"

text \<open>
  A \<open>float64\<close> is a real number (one of the finitely many that the format holds), an
  infinity or a NaN.
\<close>

datatype float64 = Finite real | PosInf | NegInf | NaN

text \<open>
  \<open>initialDelay\<close> is a \<open>time.Duration\<close>, an \<open>int64\<close> count of nanoseconds;
  \<open>backoffExponent\<close> is a \<open>float64\<close>.
\<close>

record roundTripper =
  maxRetries :: int
  initialDelay :: int
  backoffExponent :: float64

text \<open>
  Two things in the computation of the delay are not the program's own: the function
  \<open>math.Pow\<close> of the library, with its floating-point rounding, and the result of
  converting a \<open>float64\<close> to an \<open>int64\<close> that cannot hold it (an infinity, a NaN,
  a number beyond the range), which Go leaves to the platform. Both are parameters.
\<close>

record platform =
  math_Pow :: "float64 \<Rightarrow> float64 \<Rightarrow> float64"
  outOfRange :: "float64 \<Rightarrow> int"

text \<open>
  \<open>http.DefaultTransport.RoundTrip\<close> is the network: a parameter that tells, for the
  number of the attempt and the request sent, whether the exchange failed or which
  response came back.
\<close>

type_synonym transport = "nat \<Rightarrow> request \<Rightarrow> error + response"

text \<open>
  What \<open>RoundTrip\<close> does besides returning is kept in a trace: reading the original
  body, handing a request to the network, and sleeping.
\<close>

datatype event = ReadBody | RoundTripCall request | Sleep int

record exchange =
  returned :: "response option"
  failure :: "error option"
  trace :: "event list"

fun attempts :: "event list \<Rightarrow> request list" where
  "attempts [] = []"
| "attempts (RoundTripCall req # t) = req # attempts t"
| "attempts (ev # t) = attempts t"

fun sleeps :: "event list \<Rightarrow> int list" where
  "sleeps [] = []"
| "sleeps (Sleep d # t) = d # sleeps t"
| "sleeps (ev # t) = sleeps t"

text \<open>
  The conversion \<open>time.Duration(x)\<close> of a \<open>float64\<close> drops the fraction (rounds
  towards zero) when the result is an \<open>int64\<close>; otherwise the result is the
  platform's. The product of two durations is an \<open>int64\<close> product and wraps around.
\<close>

definition trunc :: "real \<Rightarrow> int" where
  "trunc x = (if 0 \<le> x then \<lfloor>x\<rfloor> else \<lceil>x\<rceil>)"

fun Duration :: "platform \<Rightarrow> float64 \<Rightarrow> int" where
  "Duration P (Finite x) =
     (if - (2 ^ 63) \<le> trunc x \<and> trunc x < 2 ^ 63 then trunc x else outOfRange P (Finite x))"
| "Duration P f = outOfRange P f"

definition int64 :: "int \<Rightarrow> int" where
  "int64 x = (x + 2 ^ 63) mod 2 ^ 64 - 2 ^ 63"

text \<open>
  The argument of \<open>time.Sleep\<close> after the failed attempt number \<open>retries\<close>:
  \<open>rt.initialDelay * time.Duration(math.Pow(rt.backoffExponent, float64(retries)))\<close>.
  (\<open>float64(retries)\<close> is the number itself; a loop counter does not reach the size
  at which the conversion would round.)
\<close>

definition backoff :: "platform \<Rightarrow> roundTripper \<Rightarrow> nat \<Rightarrow> int" where
  "backoff P rt retries =
     int64 (initialDelay rt
            * Duration P (math_Pow P (backoffExponent rt) (Finite (real retries))))"

definition setShouldSkipResponseModificationHeader :: "request \<Rightarrow> response \<Rightarrow> response" where
  "setShouldSkipResponseModificationHeader r resp =
     (if Header_Get (reqHeader r) ''HX-Request'' \<noteq> ''true'' then resp
      else resp\<lparr>Header := Header_Set (Header resp) ''templ-skip-modify'' ''true''\<rparr>)"

text \<open>
  The first block of \<open>RoundTrip\<close>: \<open>bodyBytes\<close> stays nil (\<open>None\<close>) for a nil body
  and for \<open>http.NoBody\<close>; any other body is read to its end, and \<open>io.ReadAll\<close> gives
  a non-nil slice even when no byte arrived.
\<close>

fun bufferBody :: "body option \<Rightarrow> error + string option" where
  "bufferBody None = Inr None"
| "bufferBody (Some NoBody) = Inr None"
| "bufferBody (Some b) =
     (case io_ReadAll b of Inl e \<Rightarrow> Inl e | Inr bs \<Rightarrow> Inr (Some bs))"

text \<open>The request of one attempt: the clone, with the buffered bytes as its body if there are any.\<close>

definition clone :: "request \<Rightarrow> string option \<Rightarrow> request" where
  "clone r bodyBytes =
     (case bodyBytes of None \<Rightarrow> r | Some bs \<Rightarrow> r\<lparr>reqBody := Some (Buffer bs)\<rparr>)"

definition before :: "event list \<Rightarrow> exchange \<Rightarrow> exchange" where
  "before evs x = x\<lparr>trace := evs @ trace x\<rparr>"

text \<open>The loop \<open>for retries := 0; retries < rt.maxRetries; retries++\<close>, from a given value of \<open>retries\<close>.\<close>

function retryLoop ::
  "platform \<Rightarrow> roundTripper \<Rightarrow> transport \<Rightarrow> request \<Rightarrow> string option \<Rightarrow> nat
     \<Rightarrow> exchange" where
  "retryLoop P rt tr r bodyBytes retries =
     (if int retries < maxRetries rt then
        (case tr retries (clone r bodyBytes) of
           Inl e \<Rightarrow>
             before [RoundTripCall (clone r bodyBytes), Sleep (backoff P rt retries)]
               (retryLoop P rt tr r bodyBytes (Suc retries))
         | Inr resp \<Rightarrow>
             \<lparr>returned = Some (setShouldSkipResponseModificationHeader r resp),
              failure = None,
              trace = [RoundTripCall (clone r bodyBytes)]\<rparr>)
      else \<lparr>returned = None, failure = Some MaxRetries, trace = []\<rparr>)"
  by pat_completeness auto
termination
  by (relation "measure (\<lambda>(P, rt, tr, r, bodyBytes, retries). nat (maxRetries rt) - retries)")
    auto

declare retryLoop.simps [simp del]

definition RoundTrip :: "platform \<Rightarrow> roundTripper \<Rightarrow> transport \<Rightarrow> request \<Rightarrow> exchange" where
  "RoundTrip P rt tr r =
     (case bufferBody (reqBody r) of
        Inl e \<Rightarrow> \<lparr>returned = None, failure = Some e, trace = [ReadBody]\<rparr>
      | Inr bodyBytes \<Rightarrow>
          before (if reqBody r \<noteq> None \<and> reqBody r \<noteq> Some NoBody then [ReadBody] else [])
            (retryLoop P rt tr r bodyBytes 0))"

text \<open>The transport as \<open>New\<close> configures it: ten attempts, 100 ms, exponent 1.5.\<close>

definition Millisecond :: int where
  "Millisecond = 1000000"

definition newRoundTripper :: roundTripper where
  "newRoundTripper =
     \<lparr>maxRetries = 10, initialDelay = 100 * Millisecond, backoffExponent = Finite 1.5\<rparr>"

subsection \<open>\<open>NotifyProxy\<close>\<close>

text \<open>
  \<open>http.NewRequest\<close> (with its method and URL; the body is nil) and
  \<open>http.DefaultClient.Do\<close> are parameters.
\<close>

definition NotifyProxy ::
  "(string \<Rightarrow> string \<Rightarrow> error + request) \<Rightarrow> (request \<Rightarrow> error + response)
     \<Rightarrow> string \<Rightarrow> int \<Rightarrow> error option" where
  "NotifyProxy http_NewRequest client_Do host port =
     (let urlStr = ''http://'' @ host @ '':'' @ Itoa port @ ''/_templ/reload/events'' in
      case http_NewRequest ''POST'' urlStr of
        Inl e \<Rightarrow> Some e
      | Inr req \<Rightarrow> (case client_Do req of Inl e \<Rightarrow> Some e | Inr resp \<Rightarrow> None))"

subsection \<open>The insertion rule, as the specification words it\<close>

text \<open>
  The specification asks for the script markup once, immediately before every
  occurrence of the closing body tag, and for every other byte to stay in place.
  \<open>insertBefore tag ins s\<close> says this directly: it walks through \<open>s\<close> byte by byte,
  copies each byte, and puts \<open>ins\<close> in front of a byte at which \<open>tag\<close> starts.
  \<open>occurrences tag s\<close> counts the positions of \<open>s\<close> at which \<open>tag\<close> starts.
\<close>

fun insertBefore :: "string \<Rightarrow> string \<Rightarrow> string \<Rightarrow> string" where
  "insertBefore tag ins [] = []"
| "insertBefore tag ins (c # cs) =
     (if prefix tag (c # cs) then ins @ c # insertBefore tag ins cs
      else c # insertBefore tag ins cs)"

fun occurrences :: "string \<Rightarrow> string \<Rightarrow> nat" where
  "occurrences tag [] = 0"
| "occurrences tag (c # cs) = (if prefix tag (c # cs) then 1 else 0) + occurrences tag cs"

text \<open>
  The same rule said with the pieces between the tags: a body is a list of pieces
  joined by the closing tag, and the rewritten body is the same pieces joined by the
  script markup followed by the closing tag. \<open>pieces tag s\<close> cuts \<open>s\<close> at the
  instances of \<open>tag\<close>, from the left.
\<close>

fun joinWith :: "string \<Rightarrow> string list \<Rightarrow> string" where
  "joinWith sep [] = []"
| "joinWith sep [p] = p"
| "joinWith sep (p # q # ps) = p @ sep @ joinWith sep (q # ps)"

function pieces :: "string \<Rightarrow> string \<Rightarrow> string list" where
  "pieces tag s =
     (if tag = [] then [s]
      else case Index s tag of
             None \<Rightarrow> [s]
           | Some j \<Rightarrow> take j s # pieces tag (drop (j + length tag) s))"
  by pat_completeness auto
termination
proof (relation "measure (\<lambda>(tag, s). length s)")
  show "wf (measure (\<lambda>(tag, s). length s))" by simp
next
  fix tag s :: string and j
  assume ne: "tag \<noteq> []" and ix: "Index s tag = Some j"
  from Index_Some_bound [OF ix] ne have "0 < length s" by (cases tag) auto
  with ne show "((tag, drop (j + length tag) s), (tag, s)) \<in> measure (\<lambda>(tag, s). length s)"
    by simp
qed

declare pieces.simps [simp del]

subsection \<open>Decompression and compression in one step\<close>

text \<open>
  The two halves of \<open>updateGzipResponse\<close> as it sequences them: \<open>gzip.NewReader\<close>
  then \<open>io.ReadAll\<close>, and \<open>Write\<close> then \<open>Close\<close>. \<open>gunzipRun\<close> gives the result of
  decompressing a body together with what is left of the body afterwards; \<open>gunzip\<close>
  is the result alone.
\<close>

definition gunzipRun :: "('z, 'w) gzip \<Rightarrow> body \<Rightarrow> (error + string) \<times> body" where
  "gunzipRun G b =
     (case gzip_NewReader G b of
        (Inl e, n) \<Rightarrow> (Inl e, advance n b)
      | (Inr plainr, n) \<Rightarrow>
          (case gzip_ReadAll G plainr (advance n b) of
             (res, m) \<Rightarrow> (res, advance m (advance n b))))"

definition gunzip :: "('z, 'w) gzip \<Rightarrow> body \<Rightarrow> error + string" where
  "gunzip G b = fst (gunzipRun G b)"

definition gzipped :: "('z, 'w) gzip \<Rightarrow> string \<Rightarrow> error + string" where
  "gzipped G s =
     (case gzip_Write G s of Inl e \<Rightarrow> Inl e | Inr gzw \<Rightarrow> gzip_Close G gzw)"

subsection \<open>The trace of failed attempts\<close>

text \<open>The events of the attempts number \<open>k\<close> to \<open>n - 1\<close> when each of them fails.\<close>

definition failedRounds ::
  "platform \<Rightarrow> roundTripper \<Rightarrow> request \<Rightarrow> nat \<Rightarrow> nat \<Rightarrow> event list" where
  "failedRounds P rt req k n =
     concat (map (\<lambda>i. [RoundTripCall req, Sleep (backoff P rt i)]) [k..<n])"

subsection \<open>Sample values\<close>

text \<open>
  For running the rewriter on concrete responses the gzip parameter needs a value.
  \<open>storedGzip\<close> keeps the text as it is behind the two magic bytes of a gzip header.
  Its reader fills a buffer of 4096 bytes from the body, as the buffered reader inside
  \<open>gzip.NewReader\<close> does, and refuses a body that does not start with the magic bytes;
  reading the decoder to its end reads the rest of the body. \<open>brokenWriter\<close> is the
  same codec with a writer that fails.
\<close>

definition gzipMagic :: string where
  "gzipMagic = [CHR 0x1F, CHR 0x8B]"

definition storedNewReader :: "body \<Rightarrow> (error + string) \<times> nat" where
  "storedNewReader b =
     (let buf = take 4096 (pending b) in
      if prefix gzipMagic buf then (Inr (drop 2 buf), length buf)
      else if 2 \<le> length buf then (Inl (External ''gzip: invalid header''), length buf)
      else (case io_ReadAll b of
              Inl e \<Rightarrow> (Inl e, length buf)
            | Inr bs \<Rightarrow> (Inl (External ''unexpected EOF''), length buf)))"

definition storedReadAll :: "string \<Rightarrow> body \<Rightarrow> (error + string) \<times> nat" where
  "storedReadAll buffered b =
     (case io_ReadAll b of
        Inl e \<Rightarrow> (Inl e, length (pending b))
      | Inr rest \<Rightarrow> (Inr (buffered @ rest), length (pending b)))"

definition storedGzip :: "(string, string) gzip" where
  "storedGzip =
     \<lparr>gzip_NewReader = storedNewReader,
      gzip_ReadAll = storedReadAll,
      gzip_Write = (\<lambda>s. Inr (gzipMagic @ s)),
      gzip_Close = Inr\<rparr>"

definition brokenWriter :: "(string, string) gzip" where
  "brokenWriter = storedGzip\<lparr>gzip_Write := (\<lambda>s. Inl (External ''short write''))\<rparr>"

text \<open>
  Responses: an HTML page, a JSON document, a page with another encoding, a gzip page,
  a page announced as gzip that is not, and a gzip page whose stream breaks off.
\<close>

definition page :: response where
  "page = \<lparr>StatusCode = 200,
            Header = [''Content-Type'' \<mapsto> [''text/html; charset=utf-8'']],
            Body = Stream ''<html><body>hi</body></html>'' None,
            ContentLength = 28\<rparr>"

definition jsonResponse :: response where
  "jsonResponse = \<lparr>StatusCode = 200,
            Header = [''Content-Type'' \<mapsto> [''application/json''],
                      ''Content-Length'' \<mapsto> [''16'']],
            Body = Stream ''{\"a\":\"</body>\"}'' None,
            ContentLength = 16\<rparr>"

definition brPage :: response where
  "brPage = \<lparr>StatusCode = 200,
            Header = [''Content-Type'' \<mapsto> [''text/html''], ''Content-Encoding'' \<mapsto> [''br'']],
            Body = Stream ''xy</body>z'' None,
            ContentLength = 10\<rparr>"

definition gzipPage :: response where
  "gzipPage = \<lparr>StatusCode = 200,
            Header = [''Content-Type'' \<mapsto> [''text/html''], ''Content-Encoding'' \<mapsto> [''gzip'']],
            Body = Stream (gzipMagic @ ''<p>hi</p></body>'') None,
            ContentLength = 18\<rparr>"



text \<open>
  A platform for running the transport. Its \<open>math.Pow\<close> gives the exact power for an
  exponent that is a whole number and not negative, which is what \<open>math.Pow\<close> returns
  whenever the exact power is a \<open>float64\<close>, as it is for 1.5 to the powers 0 to 9;
  other arguments do not occur in the runs below, and the sample answers NaN there.
  A conversion out of range gives the smallest \<open>int64\<close>, as on amd64.
\<close>

fun exactPow :: "float64 \<Rightarrow> float64 \<Rightarrow> float64" where
  "exactPow (Finite x) (Finite y) =
     (if 0 \<le> y \<and> y = of_int \<lfloor>y\<rfloor> then Finite (x ^ nat \<lfloor>y\<rfloor>) else NaN)"
| "exactPow x y = NaN"

definition samplePlatform :: platform where
  "samplePlatform = \<lparr>math_Pow = exactPow, outOfRange = (\<lambda>f. - (2 ^ 63))\<rparr>"

text \<open>Requests, networks and a request constructor for running the transport and \<open>NotifyProxy\<close>.\<close>

definition okResponse :: response where
  "okResponse = \<lparr>StatusCode = 200, Header = Map.empty, Body = Buffer ''ok'', ContentLength = 2\<rparr>"

definition getRequest :: request where
  "getRequest = \<lparr>Method = ''GET'', URL = ''/'', reqHeader = Map.empty, reqBody = None\<rparr>"

definition postRequest :: request where
  "postRequest = \<lparr>Method = ''POST'', URL = ''/form'', reqHeader = Map.empty,
                   reqBody = Some (Stream ''a=1'' None)\<rparr>"

definition emptyPost :: request where
  "emptyPost = postRequest\<lparr>reqBody := Some (Stream [] None)\<rparr>"

definition failsTwice :: transport where
  "failsTwice i req = (if i < 2 then Inl (External ''connection refused'') else Inr okResponse)"

definition refuses :: transport where
  "refuses i req = Inl (External ''connection refused'')"

definition answers :: "response \<Rightarrow> transport" where
  "answers up i req = Inr up"

definition htmxRequest :: request where
  "htmxRequest = getRequest\<lparr>reqHeader := [''Hx-Request'' \<mapsto> [''true'']]\<rparr>"

definition taggedPage :: response where
  "taggedPage = page\<lparr>Header := [''Content-Type'' \<mapsto> [''text/html''],
                                   ''Templ-Skip-Modify'' \<mapsto> [''true'']]\<rparr>"

definition brokenPage :: response where
  "brokenPage = page\<lparr>Body := Stream ''<html><body>hi</body>''
                                (Some (External ''connection reset''))\<rparr>"

definition serverError :: response where
  "serverError = \<lparr>StatusCode = 500, Header = Map.empty, Body = NoBody, ContentLength = 0\<rparr>"

definition newRequest :: "string \<Rightarrow> string \<Rightarrow> error + request" where
  "newRequest method url = Inr \<lparr>Method = method, URL = url, reqHeader = Map.empty, reqBody = None\<rparr>"

section \<open>Properties of the rewriter\<close>

subsection \<open>Replacement and insertion\<close>

lemma length_insertBefore:
  "length (insertBefore tag ins s) = length s + occurrences tag s * length ins"
  by (induction s) simp_all

lemma Index_Some_prefix: "Index s substr = Some i \<Longrightarrow> prefix substr (drop i s)"
proof (induction s arbitrary: i)
  case Nil
  then show ?case by (simp split: if_splits)
next
  case (Cons c cs)
  then show ?case by (auto split: if_splits)
qed

lemma Index_Some_split:
  assumes "Index s substr = Some i"
  shows "s = take i s @ substr @ drop (i + length substr) s"
proof -
  from Index_Some_prefix [OF assms] obtain t where t: "drop i s = substr @ t"
    by (auto simp: prefix_def)
  then have "drop (length substr) (drop i s) = t" by simp
  then have "t = drop (i + length substr) s" by (simp add: add.commute)
  with t have "drop i s = substr @ drop (i + length substr) s" by simp
  then have "take i s @ drop i s = take i s @ substr @ drop (i + length substr) s" by simp
  then show ?thesis by simp
qed

lemma insertBefore_Index_None:
  "tag \<noteq> [] \<Longrightarrow> Index s tag = None \<Longrightarrow> insertBefore tag ins s = s"
  by (induction s) (auto split: if_splits)

lemma insertBefore_Index_Some:
  "tag \<noteq> [] \<Longrightarrow> Index s tag = Some j \<Longrightarrow>
     insertBefore tag ins s = take j s @ insertBefore tag ins (drop j s)"
proof (induction s arbitrary: j)
  case Nil
  then show ?case by simp
next
  case (Cons c cs)
  show ?case
  proof (cases "prefix tag (c # cs)")
    case True
    with Cons.prems have "j = 0" by simp
    then show ?thesis by simp
  next
    case False
    with Cons.prems obtain k where k: "Index cs tag = Some k" "j = Suc k" by auto
    from Cons.IH [OF Cons.prems(1) k(1)] False k(2) show ?thesis by simp
  qed
qed

lemma insertBefore_closing:
  "insertBefore ''</body>'' ins (''</body>'' @ rest) = ins @ ''</body>'' @ insertBefore ''</body>'' ins rest"
  by simp

lemma replaceLoop_insertBefore:
  "replaceLoop (Count s ''</body>'') s ''</body>'' (ins @ ''</body>'') = insertBefore ''</body>'' ins s"
proof (induction s rule: length_induct)
  case (1 s)
  show ?case
  proof (cases "Index s ''</body>''")
    case None
    then have "Count s ''</body>'' = 0" by (subst Count.simps) simp
    with None show ?thesis by (simp add: insertBefore_Index_None)
  next
    case (Some j)
    let ?s' = "drop (j + length ''</body>'') s"
    from Index_Some_bound [OF Some] have "length ?s' < length s" by simp
    with 1 have IH: "replaceLoop (Count ?s' ''</body>'') ?s' ''</body>'' (ins @ ''</body>'')
        = insertBefore ''</body>'' ins ?s'" by blast
    from Index_Some_prefix [OF Some] obtain t where t: "drop j s = ''</body>'' @ t"
      by (auto simp: prefix_def)
    then have "drop (length ''</body>'') (drop j s) = t" by simp
    then have t': "t = ?s'" by (simp add: add.commute)
    have "insertBefore ''</body>'' ins s = take j s @ insertBefore ''</body>'' ins (drop j s)"
      by (rule insertBefore_Index_Some [OF _ Some]) simp
    also have "insertBefore ''</body>'' ins (drop j s)
        = ins @ ''</body>'' @ insertBefore ''</body>'' ins ?s'"
      unfolding t t' [symmetric] by (rule insertBefore_closing)
    finally have R: "insertBefore ''</body>'' ins s
        = take j s @ ins @ ''</body>'' @ insertBefore ''</body>'' ins ?s'" .
    have "Count s ''</body>'' = Suc (Count ?s' ''</body>'')"
      using Some by (subst Count.simps) simp
    then show ?thesis using Some IH R by simp
  qed
qed

lemma scriptTag_not_Nil: "scriptTag \<noteq> []"
  by (simp add: scriptTag_def)

lemma insertScriptTagIntoBody_eq:
  "insertScriptTagIntoBody body = insertBefore ''</body>'' scriptTag body"
proof (cases "Index body ''</body>''")
  case None
  then have "Count body ''</body>'' = 0" by (subst Count.simps) simp
  with None show ?thesis
    by (simp add: insertScriptTagIntoBody_def Replace_def insertBefore_Index_None scriptTag_not_Nil)
next
  case (Some j)
  then have "Count body ''</body>'' \<noteq> 0" by (subst Count.simps) simp
  then show ?thesis
    using replaceLoop_insertBefore [of body scriptTag]
    by (simp add: insertScriptTagIntoBody_def Replace_def Let_def scriptTag_not_Nil)
qed

text \<open>
  The closing tag starts with a byte that it does not contain again, so two of its
  occurrences never overlap, and none starts inside a piece and ends in a tag that
  follows. Hence inserting before every occurrence is joining the pieces with the
  longer separator, whatever the pieces are, as long as none of them contains the tag.
\<close>

lemma no_occurrence_across:
  assumes ne: "tag \<noteq> []"
      and first: "\<forall>k. 0 < k \<and> k < length tag \<longrightarrow> tag ! k \<noteq> tag ! 0"
      and free: "\<not> sublist tag (c # p)"
  shows "\<not> prefix tag (c # p @ tag @ q)"
proof
  assume "prefix tag (c # p @ tag @ q)"
  then have pre: "prefix tag ((c # p) @ tag @ q)" by (simp only: append_Cons)
  let ?n = "length (c # p)"
  show False
  proof (cases "length tag \<le> ?n")
    case True
    have "prefix (c # p) ((c # p) @ tag @ q)" by (rule prefixI) simp
    from prefix_length_prefix [OF pre this True] have "prefix tag (c # p)" .
    then have "sublist tag (c # p)" by (rule prefix_imp_sublist)
    with free show False by simp
  next
    case False
    then have lt: "?n < length tag" and pos: "0 < ?n" by simp_all
    define w where "w = (c # p) @ tag @ q"
    from pre obtain t where t: "w = tag @ t"
      by (auto simp: prefix_def w_def)
    have "w ! (?n + 0) = (tag @ q) ! 0"
      unfolding w_def by (rule nth_append_length_plus)
    with ne have a: "w ! ?n = tag ! 0" by (simp add: nth_append)
    from lt have "(tag @ t) ! ?n = tag ! ?n" by (simp add: nth_append)
    with t have b: "w ! ?n = tag ! ?n" by simp
    from a b have "tag ! ?n = tag ! 0" by simp
    with first pos lt show False by blast
  qed
qed

lemma closing_tag_first:
  "\<forall>k. 0 < k \<and> k < length ''</body>'' \<longrightarrow> ''</body>'' ! k \<noteq> ''</body>'' ! 0"
proof (intro allI impI)
  fix k :: nat
  assume "0 < k \<and> k < length ''</body>''"
  then have "k \<in> {1, 2, 3, 4, 5, 6}" by auto
  then show "''</body>'' ! k \<noteq> ''</body>'' ! 0" by auto
qed

lemma insertBefore_no_occurrence:
  "tag \<noteq> [] \<Longrightarrow> \<not> sublist tag p \<Longrightarrow> insertBefore tag ins p = p"
proof (induction p)
  case Nil
  then show ?case by simp
next
  case (Cons c p)
  from Cons.prems(2) have "\<not> prefix tag (c # p)" using prefix_imp_sublist by blast
  moreover from Cons.prems(2) have "\<not> sublist tag p" by (auto simp: sublist_Cons_right)
  ultimately show ?case using Cons.IH Cons.prems(1) by simp
qed

lemma insertBefore_at_tag:
  assumes ne: "tag \<noteq> []"
      and first: "\<forall>k. 0 < k \<and> k < length tag \<longrightarrow> tag ! k \<noteq> tag ! 0"
  shows "insertBefore tag ins (tag @ q) = ins @ tag @ insertBefore tag ins q"
proof -
  have skip: "insertBefore tag ins (u @ q) = u @ insertBefore tag ins q"
    if "\<forall>x \<in> set u. x \<noteq> tag ! 0" for u
    using that
  proof (induction u)
    case Nil
    then show ?case by simp
  next
    case (Cons x u)
    from Cons.prems ne have "\<not> prefix tag (x # u @ q)"
      by (cases tag) auto
    with Cons show ?case by simp
  qed
  from ne obtain a u where tag: "tag = a # u" by (cases tag) auto
  have "\<forall>x \<in> set u. x \<noteq> tag ! 0"
  proof
    fix x assume "x \<in> set u"
    then obtain i where "i < length u" "u ! i = x" by (auto simp: in_set_conv_nth)
    with first [rule_format, of "Suc i"] tag show "x \<noteq> tag ! 0" by auto
  qed
  from skip [OF this] tag show ?thesis by simp
qed

lemma insertBefore_between:
  assumes ne: "tag \<noteq> []"
      and first: "\<forall>k. 0 < k \<and> k < length tag \<longrightarrow> tag ! k \<noteq> tag ! 0"
      and free: "\<not> sublist tag p"
  shows "insertBefore tag ins (p @ tag @ q) = p @ ins @ tag @ insertBefore tag ins q"
  using free
proof (induction p)
  case Nil
  from insertBefore_at_tag [OF ne first] show ?case by simp
next
  case (Cons c p)
  from no_occurrence_across [OF ne first Cons.prems]
  have "\<not> prefix tag (c # p @ tag @ q)" .
  moreover from Cons.prems have "\<not> sublist tag p" by (auto simp: sublist_Cons_right)
  ultimately show ?case using Cons.IH by simp
qed

lemma insertBefore_pieces:
  assumes ne: "tag \<noteq> []"
      and first: "\<forall>k. 0 < k \<and> k < length tag \<longrightarrow> tag ! k \<noteq> tag ! 0"
  shows "\<forall>p \<in> set ps. \<not> sublist tag p \<Longrightarrow>
     insertBefore tag ins (joinWith tag ps) = joinWith (ins @ tag) ps"
proof (induction ps rule: induct_list012)
  case 1
  then show ?case by simp
next
  case (2 p)
  with insertBefore_no_occurrence [OF ne] show ?case by simp
next
  case (3 p q ps)
  from "3.prems" have "\<not> sublist tag p" and "\<forall>p \<in> set (q # ps). \<not> sublist tag p" by simp_all
  with "3.IH" insertBefore_between [OF ne first] show ?case by simp
qed

lemma insertScriptTagIntoBody_pieces:
  assumes "\<forall>p \<in> set ps. \<not> sublist ''</body>'' p"
  shows "insertScriptTagIntoBody (joinWith ''</body>'' ps) = joinWith (scriptTag @ ''</body>'') ps"
  unfolding insertScriptTagIntoBody_eq
  by (rule insertBefore_pieces [OF _ closing_tag_first assms]) simp

text \<open>Every body is such a list of pieces.\<close>

lemma pieces_not_Nil: "pieces tag s \<noteq> []"
  by (subst pieces.simps) (simp split: option.splits)

lemma joinWith_Cons: "ps \<noteq> [] \<Longrightarrow> joinWith sep (p # ps) = p @ sep @ joinWith sep ps"
  by (cases ps) simp_all

lemma joinWith_pieces: "joinWith tag (pieces tag s) = s"
proof (induction tag s rule: pieces.induct)
  case (1 tag s)
  show ?case
  proof (cases "tag = []")
    case True
    then show ?thesis by (subst pieces.simps) simp
  next
    case False
    show ?thesis
    proof (cases "Index s tag")
      case None
      with False show ?thesis by (subst pieces.simps) simp
    next
      case (Some j)
      from "1.IH" [OF False Some]
      have "joinWith tag (pieces tag (drop (j + length tag) s)) = drop (j + length tag) s" .
      with False Some Index_Some_split [OF Some] show ?thesis
        by (subst pieces.simps) (simp add: joinWith_Cons pieces_not_Nil)
    qed
  qed
qed

lemma Index_None_free: "tag \<noteq> [] \<Longrightarrow> Index s tag = None \<Longrightarrow> \<not> sublist tag s"
  by (induction s) (auto simp: sublist_Cons_right split: if_splits)

lemma Index_Some_take_free:
  "tag \<noteq> [] \<Longrightarrow> Index s tag = Some j \<Longrightarrow> \<not> sublist tag (take j s)"
proof (induction s arbitrary: j)
  case Nil
  then show ?case by simp
next
  case (Cons c cs)
  show ?case
  proof (cases "prefix tag (c # cs)")
    case True
    with Cons.prems show ?thesis by simp
  next
    case False
    with Cons.prems obtain k where k: "Index cs tag = Some k" "j = Suc k" by auto
    have "\<not> prefix tag (c # take k cs)"
    proof
      assume "prefix tag (c # take k cs)"
      moreover have "prefix (c # take k cs) (c # cs)" by (simp add: take_is_prefix)
      ultimately have "prefix tag (c # cs)" by (rule prefix_order.trans)
      with False show False by simp
    qed
    with Cons.IH [OF Cons.prems(1) k(1)] k(2) show ?thesis
      by (simp add: sublist_Cons_right)
  qed
qed

lemma pieces_free: "tag \<noteq> [] \<Longrightarrow> \<forall>p \<in> set (pieces tag s). \<not> sublist tag p"
proof (induction tag s rule: pieces.induct)
  case (1 tag s)
  show ?case
  proof (cases "Index s tag")
    case None
    with "1.prems" Index_None_free [OF "1.prems" None] show ?thesis
      by (subst pieces.simps) simp
  next
    case (Some j)
    from "1.IH" [OF "1.prems" Some "1.prems"] Index_Some_take_free [OF "1.prems" Some]
      "1.prems" Some
    show ?thesis by (subst pieces.simps) simp
  qed
qed

subsection \<open>Headers and the two updaters\<close>

lemma canonical_keys:
  "CanonicalMIMEHeaderKey ''templ-skip-modify'' = ''Templ-Skip-Modify''"
  "CanonicalMIMEHeaderKey ''Content-Type'' = ''Content-Type''"
  "CanonicalMIMEHeaderKey ''Content-Encoding'' = ''Content-Encoding''"
  "CanonicalMIMEHeaderKey ''Content-Length'' = ''Content-Length''"
  "CanonicalMIMEHeaderKey ''HX-Request'' = ''Hx-Request''"
  by code_simp+

lemma Header_Get_Set_same: "Header_Get (Header_Set h key v) key = v"
  by (simp add: Header_Get_def Header_Set_def)

lemma Header_Get_Set_other:
  "CanonicalMIMEHeaderKey key' \<noteq> CanonicalMIMEHeaderKey key \<Longrightarrow>
     Header_Get (Header_Set h key v) key' = Header_Get h key'"
  by (simp add: Header_Get_def Header_Set_def)

lemma Header_Set_Content_Length:
  "Header_Set h ''Content-Length'' v = h(''Content-Length'' \<mapsto> [v])"
  by (simp add: Header_Set_def canonical_keys)

lemma updatePlainResponse_read:
  "io_ReadAll (Body r) = Inr b \<Longrightarrow>
     updatePlainResponse r =
       (r\<lparr>Body := Buffer (insertScriptTagIntoBody b),
          ContentLength := int (length (insertScriptTagIntoBody b)),
          Header := (Header r)(''Content-Length'' \<mapsto>
                      [Itoa (int (length (insertScriptTagIntoBody b)))])\<rparr>,
        None)"
  by (simp add: updatePlainResponse_def Let_def Header_Set_Content_Length)



lemma updateGzipResponse_ok:
  "gunzip G (Body r) = Inr plain \<Longrightarrow> gzipped G (insertScriptTagIntoBody plain) = Inr z \<Longrightarrow>
     updateGzipResponse G r =
       (r\<lparr>Body := Buffer z,
          ContentLength := int (length z),
          Header := (Header r)(''Content-Length'' \<mapsto> [Itoa (int (length z))])\<rparr>,
        None)"
  by (auto simp: updateGzipResponse_def gunzip_def gunzipRun_def gzipped_def Let_def
      Header_Set_Content_Length split: sum.splits prod.splits)



lemma Header_Get_page:
  "Header_Get (Header page) ''templ-skip-modify'' = []"
  "Header_Get (Header page) ''Content-Type'' = ''text/html; charset=utf-8''"
  "Header_Get (Header page) ''Content-Encoding'' = []"
  by (simp_all add: page_def Header_Get_def canonical_keys)

lemma Header_Get_gzipPage:
  "Header_Get (Header gzipPage) ''templ-skip-modify'' = []"
  "Header_Get (Header gzipPage) ''Content-Type'' = ''text/html''"
  "Header_Get (Header gzipPage) ''Content-Encoding'' = ''gzip''"
  by (simp_all add: gzipPage_def Header_Get_def canonical_keys)

lemma length_constants: "length scriptTag = 48" "length gzipMagic = 2"
  by (simp_all add: scriptTag_def gzipMagic_def)

lemma pending_advance: "pending (advance n b) = drop n (pending b)"
  by (cases b) simp_all

lemma drained_advance: "drained (advance n b) = drained b"
  by (cases b) (simp_all add: drained_def)

lemma drop_take_rest:
  assumes "2 \<le> length (take k xs)"
  shows "drop 2 (take k xs) @ drop (length (take k xs)) xs = drop 2 xs"
proof -
  have d: "drop (length (take k xs)) xs = drop k xs"
    by (cases "k \<le> length xs") (simp_all add: min_def)
  have a: "drop 2 (take k xs @ drop k xs)
      = drop 2 (take k xs) @ drop (2 - length (take k xs)) (drop k xs)"
    by (rule drop_append)
  from assms have z: "2 - length (take k xs) = 0" by simp
  have c: "take k xs @ drop k xs = xs" by simp
  from a have "drop 2 xs = drop 2 (take k xs) @ drop k xs"
    unfolding z c by (simp only: drop_0)
  with d show ?thesis by (simp only:)
qed

lemma gunzipRun_storedGzip:
  assumes "io_ReadAll b = Inr (gzipMagic @ s)"
  shows "gunzipRun storedGzip b = (Inr s, drained b)"
proof -
  from assms have p: "pending b = gzipMagic @ s"
    by (cases b rule: io_ReadAll.cases) simp_all
  let ?buf = "take 4096 (gzipMagic @ s)"
  have pre: "prefix gzipMagic ?buf" by (simp add: gzipMagic_def)
  then have len: "2 \<le> length ?buf" by (auto dest: prefix_length_le simp: length_constants)
  have n: "storedNewReader b = (Inr (drop 2 ?buf), length ?buf)"
    using pre by (simp add: storedNewReader_def p Let_def)
  from assms have ra: "io_ReadAll (advance (length ?buf) b)
      = Inr (drop (length ?buf) (gzipMagic @ s))"
    by (cases b rule: io_ReadAll.cases) simp_all
  have "drop 2 ?buf @ drop (length ?buf) (gzipMagic @ s) = drop 2 (gzipMagic @ s)"
    by (rule drop_take_rest [OF len])
  then have tx: "drop 2 ?buf @ drop (length ?buf) (gzipMagic @ s) = s"
    by (simp add: gzipMagic_def)
  have dr: "advance (length (pending (advance (length ?buf) b))) (advance (length ?buf) b)
      = drained b"
    using drained_advance [of "length ?buf" b] by (simp only: drained_def)
  have r: "storedReadAll (drop 2 ?buf) (advance (length ?buf) b)
      = (Inr s, length (pending (advance (length ?buf) b)))"
    by (simp only: storedReadAll_def ra sum.case tx)
  show ?thesis
    unfolding gunzipRun_def
    by (simp only: storedGzip_def gzip.simps n r prod.case sum.case dr)
qed

lemma storedGzip_lossless:
  "\<forall>s z. gzipped storedGzip s = Inr z \<longrightarrow> gunzip storedGzip (Buffer z) = Inr s"
proof (intro allI impI)
  fix s z assume "gzipped storedGzip s = Inr z"
  then have "z = gzipMagic @ s" by (auto simp: gzipped_def storedGzip_def)
  then have "io_ReadAll (Buffer z) = Inr (gzipMagic @ s)" by simp
  from gunzipRun_storedGzip [OF this] show "gunzip storedGzip (Buffer z) = Inr s"
    by (simp add: gunzip_def)
qed

lemma gunzip_storedGzip_Stream: "gunzip storedGzip (Stream (gzipMagic @ s) None) = Inr s"
  using gunzipRun_storedGzip [of "Stream (gzipMagic @ s) None" s] by (simp add: gunzip_def)

lemma gzipped_storedGzip: "gzipped storedGzip s = Inr (gzipMagic @ s)"
  by (simp add: gzipped_def storedGzip_def)



subsection \<open>Claims about the rewriter\<close>

text \<open>
  C1. For every HTML response that is not marked to be skipped, the rewrite puts the
  script markup exactly once immediately in front of every occurrence of \<open></body>\<close>
  in the HTML text \<open>b\<close> and keeps every other byte: the new text is
  \<open>insertBefore ''</body>'' scriptTag b\<close>, longer than \<open>b\<close> by one script tag for each
  occurrence; and however \<open>b\<close> is written as pieces without a closing tag, joined by
  closing tags, the new text is the same pieces joined by the script markup and the
  closing tag. When the body is read as it is, the new text is the new body; when the
  response is gzip-encoded, the new body is the compressed new text. In both cases
  the \<open>ContentLength\<close> field and the \<open>Content-Length\<close> header are set to the byte
  length of the new body, no other header or field changes, and no error is returned.
\<close>

theorem C1_rewrite_inserts_script_tag:
  assumes "Header_Get (Header r) ''templ-skip-modify'' \<noteq> ''true''"
      and "prefix ''text/html'' (Header_Get (Header r) ''Content-Type'')"
  shows "(Header_Get (Header r) ''Content-Encoding'' \<noteq> ''gzip'' \<and> io_ReadAll (Body r) = Inr b \<longrightarrow>
            modifyResponse G r =
              (r\<lparr>Body := Buffer (insertBefore ''</body>'' scriptTag b),
                 ContentLength := int (length (insertBefore ''</body>'' scriptTag b)),
                 Header := (Header r)(''Content-Length'' \<mapsto>
                             [Itoa (int (length (insertBefore ''</body>'' scriptTag b)))])\<rparr>,
               None))
         \<and> (Header_Get (Header r) ''Content-Encoding'' = ''gzip'' \<and> gunzip G (Body r) = Inr b
              \<and> gzipped G (insertBefore ''</body>'' scriptTag b) = Inr z \<longrightarrow>
            modifyResponse G r =
              (r\<lparr>Body := Buffer z,
                 ContentLength := int (length z),
                 Header := (Header r)(''Content-Length'' \<mapsto> [Itoa (int (length z))])\<rparr>,
               None))
         \<and> length (insertBefore ''</body>'' scriptTag b)
             = length b + occurrences ''</body>'' b * length scriptTag
         \<and> (b = joinWith ''</body>'' ps \<and> (\<forall>p \<in> set ps. \<not> sublist ''</body>'' p) \<longrightarrow>
              insertBefore ''</body>'' scriptTag b = joinWith (scriptTag @ ''</body>'') ps)"
proof -
  have "b = joinWith ''</body>'' ps \<and> (\<forall>p \<in> set ps. \<not> sublist ''</body>'' p) \<longrightarrow>
      insertBefore ''</body>'' scriptTag b = joinWith (scriptTag @ ''</body>'') ps"
    using insertBefore_pieces [OF _ closing_tag_first, of ps scriptTag] by simp
  with assms show ?thesis
    by (simp add: modifyResponse_def updatePlainResponse_read updateGzipResponse_ok
        insertScriptTagIntoBody_eq length_insertBefore)
qed

theorem C1_rewrite_inserts_script_tag_witness:
  "Header_Get (Header page) ''templ-skip-modify'' \<noteq> ''true''
   \<and> prefix ''text/html'' (Header_Get (Header page) ''Content-Type'')
   \<and> Header_Get (Header page) ''Content-Encoding'' \<noteq> ''gzip''
   \<and> io_ReadAll (Body page) = Inr ''<html><body>hi</body></html>''
   \<and> modifyResponse storedGzip page =
        (page\<lparr>Body := Buffer (''<html><body>hi'' @ scriptTag @ ''</body></html>''),
              ContentLength := 76,
              Header := (Header page)(''Content-Length'' \<mapsto> [''76''])\<rparr>,
         None)
   \<and> ''<html><body>hi</body></html>'' = joinWith ''</body>'' [''<html><body>hi'', ''</html>'']
   \<and> \<not> sublist ''</body>'' ''<html><body>hi'' \<and> \<not> sublist ''</body>'' ''</html>''
   \<and> insertBefore ''</body>'' scriptTag ''<html><body>hi</body></html>''
        = joinWith (scriptTag @ ''</body>'') [''<html><body>hi'', ''</html>'']
   \<and> Header_Get (Header gzipPage) ''templ-skip-modify'' \<noteq> ''true''
   \<and> prefix ''text/html'' (Header_Get (Header gzipPage) ''Content-Type'')
   \<and> Header_Get (Header gzipPage) ''Content-Encoding'' = ''gzip''
   \<and> gunzip storedGzip (Body gzipPage) = Inr ''<p>hi</p></body>''
   \<and> gzipped storedGzip (''<p>hi</p>'' @ scriptTag @ ''</body>'')
        = Inr (gzipMagic @ ''<p>hi</p>'' @ scriptTag @ ''</body>'')
   \<and> modifyResponse storedGzip gzipPage =
        (gzipPage\<lparr>Body := Buffer (gzipMagic @ ''<p>hi</p>'' @ scriptTag @ ''</body>''),
              ContentLength := 66,
              Header := (Header gzipPage)(''Content-Length'' \<mapsto> [''66''])\<rparr>,
         None)"
proof -
  have p1: "Header_Get (Header page) ''templ-skip-modify'' \<noteq> ''true''"
    and p2: "prefix ''text/html'' (Header_Get (Header page) ''Content-Type'')"
    and p3: "Header_Get (Header page) ''Content-Encoding'' \<noteq> ''gzip''"
    by (simp_all add: Header_Get_page)
  have p4: "io_ReadAll (Body page) = Inr ''<html><body>hi</body></html>''"
    by (simp add: page_def)
  have g1: "Header_Get (Header gzipPage) ''templ-skip-modify'' \<noteq> ''true''"
    and g2: "prefix ''text/html'' (Header_Get (Header gzipPage) ''Content-Type'')"
    and g3: "Header_Get (Header gzipPage) ''Content-Encoding'' = ''gzip''"
    by (simp_all add: Header_Get_gzipPage)
  have g4: "gunzip storedGzip (Body gzipPage) = Inr ''<p>hi</p></body>''"
    by (simp add: gzipPage_def gunzip_storedGzip_Stream)
  have g5: "gzipped storedGzip (''<p>hi</p>'' @ scriptTag @ ''</body>'')
      = Inr (gzipMagic @ ''<p>hi</p>'' @ scriptTag @ ''</body>'')"
    by (rule gzipped_storedGzip)
  have ins: "insertBefore ''</body>'' scriptTag ''<html><body>hi</body></html>''
      = ''<html><body>hi'' @ scriptTag @ ''</body></html>''"
    "insertBefore ''</body>'' scriptTag ''<p>hi</p></body>'' = ''<p>hi</p>'' @ scriptTag @ ''</body>''"
    by simp_all
  have itoa: "Itoa 76 = ''76''" "Itoa 66 = ''66''" by (simp_all add: Itoa_def)
  have a: "modifyResponse storedGzip page =
        (page\<lparr>Body := Buffer (''<html><body>hi'' @ scriptTag @ ''</body></html>''),
              ContentLength := 76,
              Header := (Header page)(''Content-Length'' \<mapsto> [''76''])\<rparr>,
         None)"
    using C1_rewrite_inserts_script_tag
      [OF p1 p2, of "''<html><body>hi</body></html>''" storedGzip] p3 p4
    unfolding ins by (simp add: length_constants itoa)
  have b: "modifyResponse storedGzip gzipPage =
        (gzipPage\<lparr>Body := Buffer (gzipMagic @ ''<p>hi</p>'' @ scriptTag @ ''</body>''),
              ContentLength := 66,
              Header := (Header gzipPage)(''Content-Length'' \<mapsto> [''66''])\<rparr>,
         None)"
    using C1_rewrite_inserts_script_tag
      [OF g1 g2, of "''<p>hi</p></body>''" storedGzip
        "gzipMagic @ ''<p>hi</p>'' @ scriptTag @ ''</body>''"] g3 g4 g5
    unfolding ins by (simp add: length_constants itoa)
  have j: "''<html><body>hi</body></html>'' = joinWith ''</body>'' [''<html><body>hi'', ''</html>'']"
    by simp
  have f1: "\<not> sublist ''</body>'' ''<html><body>hi''"
    and f2: "\<not> sublist ''</body>'' ''</html>''"
    by (simp_all add: sublist_Cons_right)
  from f1 f2 have f: "\<forall>p \<in> set [''<html><body>hi'', ''</html>'']. \<not> sublist ''</body>'' p"
    by simp
  note T = C1_rewrite_inserts_script_tag [OF p1 p2,
      where b = "''<html><body>hi</body></html>''" and ps = "[''<html><body>hi'', ''</html>'']"
        and G = storedGzip]
  from T [THEN conjunct2, THEN conjunct2, THEN conjunct2, rule_format, OF conjI, OF j f]
  have c: "insertBefore ''</body>'' scriptTag ''<html><body>hi</body></html>''
        = joinWith (scriptTag @ ''</body>'') [''<html><body>hi'', ''</html>'']" .
  from p1 p2 p3 p4 a j f1 f2 c g1 g2 g3 g4 g5 b show ?thesis by (intro conjI)
qed

text \<open>
  C5. A response whose \<open>Content-Type\<close> does not begin with \<open>text/html\<close> passes
  through the rewriter as it is: the same body, the same headers (\<open>Content-Length\<close>
  among them), the same fields, and no error.
\<close>

theorem C5_non_html_passthrough:
  assumes "\<not> prefix ''text/html'' (Header_Get (Header r) ''Content-Type'')"
  shows "modifyResponse G r = (r, None)"
  using assms by (simp add: modifyResponse_def)

theorem C5_non_html_passthrough_witness:
  "\<not> prefix ''text/html'' (Header_Get (Header jsonResponse) ''Content-Type'')
   \<and> modifyResponse storedGzip jsonResponse = (jsonResponse, None)"
proof -
  have h: "\<not> prefix ''text/html'' (Header_Get (Header jsonResponse) ''Content-Type'')"
    by (simp add: jsonResponse_def Header_Get_def canonical_keys)
  from C5_non_html_passthrough [OF h, of storedGzip] h show ?thesis by simp
qed

text \<open>
  C9. For an HTML response that is not marked to be skipped and whose
  \<open>Content-Encoding\<close> is not empty and not exactly \<open>gzip\<close>, the rewriter does what
  \<open>updatePlainResponse\<close> does, whatever the gzip codec is: nothing is decompressed.
  When the body is read as the bytes \<open>raw\<close>, the replacement is applied to \<open>raw\<close>
  itself and \<open>Content-Length\<close> is overwritten with the new length.
\<close>

theorem C9_other_encodings_as_plain_text:
  assumes "Header_Get (Header r) ''templ-skip-modify'' \<noteq> ''true''"
      and "prefix ''text/html'' (Header_Get (Header r) ''Content-Type'')"
      and "Header_Get (Header r) ''Content-Encoding'' \<noteq> []"
      and "Header_Get (Header r) ''Content-Encoding'' \<noteq> ''gzip''"
  shows "modifyResponse G r = updatePlainResponse r
         \<and> (io_ReadAll (Body r) = Inr raw \<longrightarrow>
              modifyResponse G r =
                (r\<lparr>Body := Buffer (insertScriptTagIntoBody raw),
                   ContentLength := int (length (insertScriptTagIntoBody raw)),
                   Header := (Header r)(''Content-Length'' \<mapsto>
                               [Itoa (int (length (insertScriptTagIntoBody raw)))])\<rparr>,
                 None))"
  using assms by (simp add: modifyResponse_def updatePlainResponse_read)

theorem C9_other_encodings_as_plain_text_witness:
  "Header_Get (Header brPage) ''templ-skip-modify'' \<noteq> ''true''
   \<and> prefix ''text/html'' (Header_Get (Header brPage) ''Content-Type'')
   \<and> Header_Get (Header brPage) ''Content-Encoding'' = ''br''
   \<and> io_ReadAll (Body brPage) = Inr ''xy</body>z''
   \<and> modifyResponse brokenWriter brPage = updatePlainResponse brPage
   \<and> modifyResponse brokenWriter brPage =
        (brPage\<lparr>Body := Buffer (''xy'' @ scriptTag @ ''</body>z''),
                ContentLength := 58,
                Header := (Header brPage)(''Content-Length'' \<mapsto> [''58''])\<rparr>,
         None)"
proof -
  have h1: "Header_Get (Header brPage) ''templ-skip-modify'' \<noteq> ''true''"
    and h2: "prefix ''text/html'' (Header_Get (Header brPage) ''Content-Type'')"
    and h3: "Header_Get (Header brPage) ''Content-Encoding'' = ''br''"
    by (simp_all add: brPage_def Header_Get_def canonical_keys)
  have h3a: "Header_Get (Header brPage) ''Content-Encoding'' \<noteq> []"
    and h3b: "Header_Get (Header brPage) ''Content-Encoding'' \<noteq> ''gzip''"
    by (simp_all add: h3)
  have h4: "io_ReadAll (Body brPage) = Inr ''xy</body>z''"
    by (simp add: brPage_def)
  have ins: "insertScriptTagIntoBody ''xy</body>z'' = ''xy'' @ scriptTag @ ''</body>z''"
    by (simp add: insertScriptTagIntoBody_eq)
  have itoa: "Itoa 58 = ''58''" by (simp add: Itoa_def)
  note T = C9_other_encodings_as_plain_text [OF h1 h2 h3a h3b, of brokenWriter "''xy</body>z''"]
  from T have a: "modifyResponse brokenWriter brPage = updatePlainResponse brPage"
    by (elim conjE)
  from T [THEN conjunct2, rule_format, OF h4] have b: "modifyResponse brokenWriter brPage =
        (brPage\<lparr>Body := Buffer (''xy'' @ scriptTag @ ''</body>z''),
                ContentLength := 58,
                Header := (Header brPage)(''Content-Length'' \<mapsto> [''58''])\<rparr>,
         None)"
    unfolding ins by (simp add: length_constants itoa)
  from h1 h2 h3 h4 a b show ?thesis by (intro conjI)
qed

text \<open>
  C4. Let the decoder of the gzip codec invert its encoder. For a gzip-encoded HTML
  response whose body decompresses to \<open>plain\<close> and whose rewritten text compresses to
  \<open>z\<close>, the rewrite installs \<open>z\<close> as the body (with its length as \<open>Content-Length\<close>),
  and decompressing the new body gives exactly what the plain rewrite gives on the
  decompressed original: the text \<open>insertScriptTagIntoBody plain\<close>.
\<close>

theorem C4_gzip_round_trip:
  assumes lossless: "\<forall>s z. gzipped G s = Inr z \<longrightarrow> gunzip G (Buffer z) = Inr s"
      and "Header_Get (Header r) ''templ-skip-modify'' \<noteq> ''true''"
      and "prefix ''text/html'' (Header_Get (Header r) ''Content-Type'')"
      and "Header_Get (Header r) ''Content-Encoding'' = ''gzip''"
      and plain: "gunzip G (Body r) = Inr plain"
      and z: "gzipped G (insertScriptTagIntoBody plain) = Inr z"
  shows "modifyResponse G r =
           (r\<lparr>Body := Buffer z,
              ContentLength := int (length z),
              Header := (Header r)(''Content-Length'' \<mapsto> [Itoa (int (length z))])\<rparr>,
            None)
         \<and> gunzip G (Body (fst (modifyResponse G r))) = Inr (insertScriptTagIntoBody plain)
         \<and> gunzip G (Body (fst (modifyResponse G r)))
             = io_ReadAll (Body (fst (updatePlainResponse (r\<lparr>Body := Buffer plain\<rparr>))))"
proof -
  have m: "modifyResponse G r =
           (r\<lparr>Body := Buffer z,
              ContentLength := int (length z),
              Header := (Header r)(''Content-Length'' \<mapsto> [Itoa (int (length z))])\<rparr>,
            None)"
    using assms(2-4) updateGzipResponse_ok [OF plain z] by (simp add: modifyResponse_def)
  have g: "gunzip G (Buffer z) = Inr (insertScriptTagIntoBody plain)"
    using lossless z by blast
  have p: "io_ReadAll (Body (fst (updatePlainResponse (r\<lparr>Body := Buffer plain\<rparr>))))
      = Inr (insertScriptTagIntoBody plain)"
    by (simp add: updatePlainResponse_def Let_def)
  from m g p show ?thesis by simp
qed

theorem C4_gzip_round_trip_witness:
  "gunzip storedGzip (Buffer (gzipMagic @ ''<p>hi</p>'')) = Inr ''<p>hi</p>''
   \<and> Header_Get (Header gzipPage) ''templ-skip-modify'' \<noteq> ''true''
   \<and> prefix ''text/html'' (Header_Get (Header gzipPage) ''Content-Type'')
   \<and> Header_Get (Header gzipPage) ''Content-Encoding'' = ''gzip''
   \<and> gunzip storedGzip (Body gzipPage) = Inr ''<p>hi</p></body>''
   \<and> gunzip storedGzip (Body (fst (modifyResponse storedGzip gzipPage)))
       = Inr (''<p>hi</p>'' @ scriptTag @ ''</body>'')
   \<and> ContentLength (fst (modifyResponse storedGzip gzipPage)) = 66"
proof -
  have h1: "Header_Get (Header gzipPage) ''templ-skip-modify'' \<noteq> ''true''"
    and h2: "prefix ''text/html'' (Header_Get (Header gzipPage) ''Content-Type'')"
    and h3: "Header_Get (Header gzipPage) ''Content-Encoding'' = ''gzip''"
    by (simp_all add: gzipPage_def Header_Get_def canonical_keys)
  have h4: "gunzip storedGzip (Body gzipPage) = Inr ''<p>hi</p></body>''"
    by (simp add: gzipPage_def gunzip_storedGzip_Stream)
  have ins: "insertScriptTagIntoBody ''<p>hi</p></body>'' = ''<p>hi</p>'' @ scriptTag @ ''</body>''"
    by (simp add: insertScriptTagIntoBody_eq)
  have h5: "gzipped storedGzip (insertScriptTagIntoBody ''<p>hi</p></body>'')
      = Inr (gzipMagic @ ''<p>hi</p>'' @ scriptTag @ ''</body>'')"
    by (simp add: gzipped_storedGzip ins)
  have len: "length scriptTag = 48" "length gzipMagic = 2"
    by (simp_all add: scriptTag_def gzipMagic_def)
  note T = C4_gzip_round_trip [of storedGzip gzipPage, OF storedGzip_lossless h1 h2 h3 h4 h5]
  from T have g: "gunzip storedGzip (Body (fst (modifyResponse storedGzip gzipPage)))
      = Inr (insertScriptTagIntoBody ''<p>hi</p></body>'')" by (elim conjE)
  from T have "ContentLength (fst (modifyResponse storedGzip gzipPage))
      = int (length (gzipMagic @ ''<p>hi</p>'' @ scriptTag @ ''</body>''))" by simp
  then have c: "ContentLength (fst (modifyResponse storedGzip gzipPage)) = 66"
    by (simp add: len)
  have l: "gunzip storedGzip (Buffer (gzipMagic @ ''<p>hi</p>'')) = Inr ''<p>hi</p>''"
    using gunzipRun_storedGzip [of "Buffer (gzipMagic @ ''<p>hi</p>'')" "''<p>hi</p>''"]
    by (simp add: gunzip_def)
  from l h1 h2 h3 h4 g c show ?thesis unfolding ins by (intro conjI)
qed




section \<open>Properties of the transport\<close>

subsection \<open>The retry loop\<close>

lemma failedRounds_step:
  "k < n \<Longrightarrow> failedRounds P rt req k n
     = [RoundTripCall req, Sleep (backoff P rt k)] @ failedRounds P rt req (Suc k) n"
  by (simp add: failedRounds_def upt_conv_Cons)

lemma failedRounds_empty [simp]: "n \<le> k \<Longrightarrow> failedRounds P rt req k n = []"
  by (simp add: failedRounds_def)

lemma attempts_append: "attempts (s @ t) = attempts s @ attempts t"
  by (induction s rule: attempts.induct) simp_all

lemma sleeps_append: "sleeps (s @ t) = sleeps s @ sleeps t"
  by (induction s rule: sleeps.induct) simp_all

lemma attempts_rounds:
  "attempts (concat (map (\<lambda>i. [RoundTripCall req, Sleep (f i)]) xs)) = replicate (length xs) req"
  by (induction xs) simp_all

lemma sleeps_rounds:
  "sleeps (concat (map (\<lambda>i. [RoundTripCall req, Sleep (f i)]) xs)) = map f xs"
  by (induction xs) simp_all

lemma attempts_failedRounds: "attempts (failedRounds P rt req k n) = replicate (n - k) req"
  by (simp add: failedRounds_def attempts_rounds)

lemma sleeps_failedRounds: "sleeps (failedRounds P rt req k n) = map (backoff P rt) [k..<n]"
  by (simp add: failedRounds_def sleeps_rounds)

lemma ReadBody_notin_failedRounds: "ReadBody \<notin> set (failedRounds P rt req k n)"
  by (auto simp: failedRounds_def)

lemma retryLoop_done:
  "\<not> int k < maxRetries rt \<Longrightarrow>
     retryLoop P rt tr r bb k = \<lparr>returned = None, failure = Some MaxRetries, trace = []\<rparr>"
  by (subst retryLoop.simps) simp

lemma retryLoop_failed:
  "int k < maxRetries rt \<Longrightarrow> tr k (clone r bb) = Inl e \<Longrightarrow>
     retryLoop P rt tr r bb k
       = before [RoundTripCall (clone r bb), Sleep (backoff P rt k)] (retryLoop P rt tr r bb (Suc k))"
  by (subst retryLoop.simps) simp

lemma retryLoop_answered:
  "int k < maxRetries rt \<Longrightarrow> tr k (clone r bb) = Inr up \<Longrightarrow>
     retryLoop P rt tr r bb k
       = \<lparr>returned = Some (setShouldSkipResponseModificationHeader r up), failure = None,
          trace = [RoundTripCall (clone r bb)]\<rparr>"
  by (subst retryLoop.simps) simp

lemma retryLoop_first_success:
  assumes "k \<le> n" and "int n < maxRetries rt"
      and "\<forall>i. k \<le> i \<and> i < n \<longrightarrow> isl (tr i (clone r bb))"
      and "tr n (clone r bb) = Inr up"
  shows "retryLoop P rt tr r bb k
       = \<lparr>returned = Some (setShouldSkipResponseModificationHeader r up), failure = None,
          trace = failedRounds P rt (clone r bb) k n @ [RoundTripCall (clone r bb)]\<rparr>"
  using assms(1,3)
proof (induction k rule: inc_induct)
  case base
  from retryLoop_answered [where tr = tr and r = r and bb = bb, OF assms(2,4)] show ?case by simp
next
  case (step m)
  from step.prems step.hyps have "isl (tr m (clone r bb))" by simp
  then obtain e where e: "tr m (clone r bb) = Inl e" by (cases "tr m (clone r bb)") auto
  from step.hyps assms(2) have lt: "int m < maxRetries rt" by simp
  from step.prems have "\<forall>i. Suc m \<le> i \<and> i < n \<longrightarrow> isl (tr i (clone r bb))" by simp
  from step.IH [OF this] retryLoop_failed [where tr = tr and r = r and bb = bb, OF lt e] step.hyps show ?case
    by (simp add: before_def failedRounds_step)
qed

lemma retryLoop_exhausted:
  assumes "\<forall>i. k \<le> i \<and> int i < maxRetries rt \<longrightarrow> isl (tr i (clone r bb))"
  shows "retryLoop P rt tr r bb k
       = \<lparr>returned = None, failure = Some MaxRetries,
          trace = failedRounds P rt (clone r bb) k (nat (maxRetries rt))\<rparr>"
  using assms
proof (induction "nat (maxRetries rt) - k" arbitrary: k)
  case 0
  then have "\<not> int k < maxRetries rt" by simp
  from retryLoop_done [OF this] 0 show ?case by simp
next
  case (Suc d)
  then have lt: "int k < maxRetries rt" and d: "d = nat (maxRetries rt) - Suc k" by linarith+
  with Suc.prems have "isl (tr k (clone r bb))" by simp
  then obtain e where e: "tr k (clone r bb) = Inl e" by (cases "tr k (clone r bb)") auto
  from Suc.prems have "\<forall>i. Suc k \<le> i \<and> int i < maxRetries rt \<longrightarrow> isl (tr i (clone r bb))"
    by simp
  from Suc.hyps(1) [OF d this] retryLoop_failed [where tr = tr and r = r and bb = bb, OF lt e] lt show ?case
    by (simp add: before_def failedRounds_step)
qed

text \<open>Whatever the network does, the loop never reads the original body and sends only the clone.\<close>

lemma retryLoop_trace:
  "ReadBody \<notin> set (trace (retryLoop P rt tr r bb k))
   \<and> set (attempts (trace (retryLoop P rt tr r bb k))) \<subseteq> {clone r bb}"
proof (induction P rt tr r bb k rule: retryLoop.induct)
  case (1 P rt tr r bb k)
  show ?case
  proof (cases "int k < maxRetries rt")
    case False
    from retryLoop_done [OF this] show ?thesis by simp
  next
    case True
    show ?thesis
    proof (cases "tr k (clone r bb)")
      case (Inl e)
      from "1" [OF True Inl] retryLoop_failed [where tr = tr and r = r and bb = bb, OF True Inl] show ?thesis
        by (simp add: before_def)
    next
      case (Inr up)
      from retryLoop_answered [where tr = tr and r = r and bb = bb, OF True Inr] show ?thesis by simp
    qed
  qed
qed

text \<open>A response that the loop returns is one the network gave, after the tagging step.\<close>

lemma retryLoop_returned:
  "returned (retryLoop P rt tr r bb k) = Some resp \<Longrightarrow>
     \<exists>i up. tr i (clone r bb) = Inr up \<and> resp = setShouldSkipResponseModificationHeader r up"
proof (induction P rt tr r bb k rule: retryLoop.induct)
  case (1 P rt tr r bb k)
  show ?case
  proof (cases "int k < maxRetries rt")
    case False
    from retryLoop_done [OF this] "1.prems" show ?thesis by simp
  next
    case True
    show ?thesis
    proof (cases "tr k (clone r bb)")
      case (Inl e)
      from "1.prems" retryLoop_failed [where tr = tr and r = r and bb = bb, OF True Inl]
      have "returned (retryLoop P rt tr r bb (Suc k)) = Some resp" by (simp add: before_def)
      from "1.IH" [OF True Inl this] show ?thesis .
    next
      case (Inr up)
      from retryLoop_answered [where tr = tr and r = r and bb = bb, OF True Inr] "1.prems" Inr show ?thesis by auto
    qed
  qed
qed

lemma RoundTrip_returned:
  assumes "returned (RoundTrip P rt tr r) = Some resp"
  shows "\<exists>i req up. tr i req = Inr up \<and> resp = setShouldSkipResponseModificationHeader r up"
proof (cases "bufferBody (reqBody r)")
  case (Inl e)
  with assms show ?thesis by (simp add: RoundTrip_def)
next
  case (Inr bb)
  with assms have "returned (retryLoop P rt tr r bb 0) = Some resp"
    by (simp add: RoundTrip_def before_def)
  from retryLoop_returned [OF this] show ?thesis by blast
qed

lemma before_simps [simp]:
  "returned (before evs x) = returned x"
  "failure (before evs x) = failure x"
  "trace (before evs x) = evs @ trace x"
  by (simp_all add: before_def)

lemma attempts_ReadBody [simp]: "attempts (if c then [ReadBody] else []) = []"
  by simp

lemma RoundTrip_buffered:
  "bufferBody (reqBody r) = Inr bb \<Longrightarrow>
     RoundTrip P rt tr r
       = before (if reqBody r \<noteq> None \<and> reqBody r \<noteq> Some NoBody then [ReadBody] else [])
           (retryLoop P rt tr r bb 0)"
  by (simp add: RoundTrip_def)

lemma RoundTrip_first_success:
  assumes "bufferBody (reqBody r) = Inr bb" and "int n < maxRetries rt"
      and "\<forall>i. i < n \<longrightarrow> isl (tr i (clone r bb))"
      and "tr n (clone r bb) = Inr up"
  shows "returned (RoundTrip P rt tr r) = Some (setShouldSkipResponseModificationHeader r up)
         \<and> failure (RoundTrip P rt tr r) = None
         \<and> attempts (trace (RoundTrip P rt tr r)) = replicate (Suc n) (clone r bb)
         \<and> sleeps (trace (RoundTrip P rt tr r)) = map (backoff P rt) [0..<n]"
proof -
  from assms(3) have "\<forall>i. 0 \<le> i \<and> i < n \<longrightarrow> isl (tr i (clone r bb))" by simp
  from retryLoop_first_success [where tr = tr and r = r and bb = bb, OF _ assms(2) this assms(4)]
  have "retryLoop P rt tr r bb 0
       = \<lparr>returned = Some (setShouldSkipResponseModificationHeader r up), failure = None,
          trace = failedRounds P rt (clone r bb) 0 n @ [RoundTripCall (clone r bb)]\<rparr>" by simp
  then show ?thesis
    by (simp add: RoundTrip_buffered [OF assms(1)] before_def attempts_append sleeps_append
        attempts_failedRounds sleeps_failedRounds replicate_append_same)
qed

text \<open>
  The first two delays of the configured transport do not depend on the platform:
  \<open>math.Pow\<close> is documented to give 1 for the exponent 0 and its first argument for
  the exponent 1, and 1 and 1.5 both convert to the duration 1.
\<close>

lemma backoff_special_cases:
  assumes "math_Pow P (Finite 1.5) (Finite 0) = Finite 1"
      and "math_Pow P (Finite 1.5) (Finite 1) = Finite 1.5"
  shows "backoff P newRoundTripper 0 = 100 * Millisecond"
    and "backoff P newRoundTripper (Suc 0) = 100 * Millisecond"
  using assms
  by (simp_all add: backoff_def newRoundTripper_def Millisecond_def trunc_def int64_def)

lemma backoff_newRoundTripper:
  "backoff samplePlatform newRoundTripper 0 = 100 * Millisecond"
  "backoff samplePlatform newRoundTripper (Suc 0) = 100 * Millisecond"
  by (rule backoff_special_cases; simp add: samplePlatform_def)+

lemma RoundTrip_trace:
  assumes "bufferBody (reqBody r) = Inr bb"
  shows "\<exists>t. trace (RoundTrip P rt tr r)
            = (if reqBody r \<noteq> None \<and> reqBody r \<noteq> Some NoBody then [ReadBody] else []) @ t
          \<and> ReadBody \<notin> set t \<and> set (attempts t) \<subseteq> {clone r bb}"
  using retryLoop_trace [of P rt tr r bb 0]
  by (simp add: RoundTrip_buffered [OF assms] before_def)

lemma RoundTrip_failsTwice_post:
  "trace (RoundTrip samplePlatform newRoundTripper failsTwice postRequest)
     = [ReadBody,
        RoundTripCall (postRequest\<lparr>reqBody := Some (Buffer ''a=1'')\<rparr>), Sleep (100 * Millisecond),
        RoundTripCall (postRequest\<lparr>reqBody := Some (Buffer ''a=1'')\<rparr>), Sleep (100 * Millisecond),
        RoundTripCall (postRequest\<lparr>reqBody := Some (Buffer ''a=1'')\<rparr>)]"
proof -
  have b: "bufferBody (reqBody postRequest) = Inr (Some ''a=1'')" by (simp add: postRequest_def)
  have m: "int 2 < maxRetries newRoundTripper" by (simp add: newRoundTripper_def)
  have f: "\<forall>i. 0 \<le> i \<and> i < 2 \<longrightarrow> isl (failsTwice i (clone postRequest (Some ''a=1'')))"
    by (simp add: failsTwice_def)
  have s: "failsTwice 2 (clone postRequest (Some ''a=1'')) = Inr okResponse"
    by (simp add: failsTwice_def)
  have u: "[0..<2] = [0, Suc 0]" by (simp add: upt_conv_Cons)
  from retryLoop_first_success
    [where tr = failsTwice and r = postRequest and bb = "Some ''a=1''", OF _ m f s]
  have E: "retryLoop samplePlatform newRoundTripper failsTwice postRequest (Some ''a=1'') 0 =
      \<lparr>returned = Some (setShouldSkipResponseModificationHeader postRequest okResponse),
         failure = None,
         trace = failedRounds samplePlatform newRoundTripper (clone postRequest (Some ''a=1'')) 0 2 @
                 [RoundTripCall (clone postRequest (Some ''a=1''))]\<rparr>" by simp
  have c: "clone postRequest (Some ''a=1'') = postRequest\<lparr>reqBody := Some (Buffer ''a=1'')\<rparr>"
    by (simp add: clone_def)
  have n: "reqBody postRequest \<noteq> None \<and> reqBody postRequest \<noteq> Some NoBody"
    by (simp add: postRequest_def)
  show ?thesis
    unfolding RoundTrip_buffered [OF b] E c
    by (simp add: n failedRounds_def u backoff_newRoundTripper)
qed

lemma RoundTrip_answers:
  assumes "bufferBody (reqBody r) = Inr bb"
  shows "returned (RoundTrip samplePlatform newRoundTripper (answers up) r)
           = Some (setShouldSkipResponseModificationHeader r up)"
proof -
  have m: "int 0 < maxRetries newRoundTripper" by (simp add: newRoundTripper_def)
  have s: "answers up 0 (clone r bb) = Inr up" by (simp add: answers_def)
  from retryLoop_answered [where tr = "answers up" and r = r and bb = bb, OF m s]
  show ?thesis unfolding RoundTrip_buffered [OF assms] by simp
qed

subsection \<open>Claims about the transport\<close>

text \<open>
  C2. The claim: when the network fails on the first \<open>N - 1\<close> attempts and answers
  on attempt \<open>N\<close>, \<open>RoundTrip\<close> returns that response, makes no further attempt, and
  has slept for at least the sum of \<open>initialDelay * backoffExponent ^ i\<close> over
  \<open>i = 0, ..., N - 2\<close>; a response is never retried, whatever its status code. All
  of this but the bound on the time slept holds for every input
  (\<open>RoundTrip_first_success\<close>); the bound does not. With the configured transport
  (ten attempts, 100 ms, exponent 1.5) and a network that fails twice and then
  answers, the three attempts are made and the response is returned, but the two
  sleeps are 100 ms each, because the conversion to \<open>time.Duration\<close> turns 1.5 into 1
  before the multiplication: 200 ms in all, less than the 250 ms of the claim. The two
  powers involved, 1.5 to the 0 and to the 1, are fixed by the documentation of
  \<open>math.Pow\<close>, so the two delays are the same on every platform
  (\<open>backoff_special_cases\<close>).
\<close>

theorem C2_backoff_drops_fraction:
  "returned (RoundTrip samplePlatform newRoundTripper failsTwice getRequest) = Some okResponse
   \<and> attempts (trace (RoundTrip samplePlatform newRoundTripper failsTwice getRequest))
       = [getRequest, getRequest, getRequest]
   \<and> sleeps (trace (RoundTrip samplePlatform newRoundTripper failsTwice getRequest))
       = [100 * Millisecond, 100 * Millisecond]
   \<and> real_of_int (sum_list (sleeps (trace (RoundTrip samplePlatform newRoundTripper failsTwice getRequest))))
       < (\<Sum>i = 0..<2. real_of_int (initialDelay newRoundTripper) * (3 / 2) ^ i)
   \<and> backoffExponent newRoundTripper = Finite (3 / 2)"
proof -
  have b: "bufferBody (reqBody getRequest) = Inr None" by (simp add: getRequest_def)
  have c: "clone getRequest None = getRequest" by (simp add: clone_def)
  have m: "int 2 < maxRetries newRoundTripper" by (simp add: newRoundTripper_def)
  have f: "\<forall>i. i < 2 \<longrightarrow> isl (failsTwice i (clone getRequest None))"
    by (simp add: failsTwice_def)
  have s: "failsTwice 2 (clone getRequest None) = Inr okResponse" by (simp add: failsTwice_def)
  have t: "setShouldSkipResponseModificationHeader getRequest okResponse = okResponse"
    by (simp add: setShouldSkipResponseModificationHeader_def getRequest_def Header_Get_def)
  have u: "[0..<2] = [0, 1::nat]" by (simp add: upt_conv_Cons)
  have r: "replicate (Suc 2) getRequest = [getRequest, getRequest, getRequest]"
    by (simp add: numeral_2_eq_2)
  from RoundTrip_first_success [where tr = failsTwice and r = getRequest and bb = None, OF b m f s]
  have "returned (RoundTrip samplePlatform newRoundTripper failsTwice getRequest) = Some okResponse"
    and "attempts (trace (RoundTrip samplePlatform newRoundTripper failsTwice getRequest))
       = [getRequest, getRequest, getRequest]"
    and sl: "sleeps (trace (RoundTrip samplePlatform newRoundTripper failsTwice getRequest))
       = [100 * Millisecond, 100 * Millisecond]"
    unfolding c t u r by (simp_all add: backoff_newRoundTripper)
  moreover have "real_of_int (sum_list [100 * Millisecond, 100 * Millisecond])
       < (\<Sum>i = 0..<2. real_of_int (initialDelay newRoundTripper) * (3 / 2) ^ i)"
    by (simp add: newRoundTripper_def Millisecond_def numeral_2_eq_2)
  moreover have "backoffExponent newRoundTripper = Finite (3 / 2)"
    by (simp add: newRoundTripper_def)
  ultimately show ?thesis by (simp only: sl)
qed

text \<open>
  C3. When the network fails on every attempt that the loop allows, \<open>RoundTrip\<close>
  returns no response. Once the request body has been buffered (the attempts start
  only then), the error returned is \<open>MaxRetries\<close>, after exactly \<open>maxRetries\<close> attempts.
\<close>

theorem C3_retries_exhausted:
  assumes "\<forall>i req. int i < maxRetries rt \<longrightarrow> isl (tr i req)"
  shows "returned (RoundTrip P rt tr r) = None
         \<and> (bufferBody (reqBody r) = Inr bb \<longrightarrow>
              failure (RoundTrip P rt tr r) = Some MaxRetries
              \<and> length (attempts (trace (RoundTrip P rt tr r))) = nat (maxRetries rt))"
proof (cases "bufferBody (reqBody r)")
  case (Inl e)
  then show ?thesis by (simp add: RoundTrip_def)
next
  case (Inr bb')
  from assms have "\<forall>i. 0 \<le> i \<and> int i < maxRetries rt \<longrightarrow> isl (tr i (clone r bb'))" by simp
  from retryLoop_exhausted [where tr = tr and r = r and bb = bb', OF this]
  have E: "retryLoop P rt tr r bb' 0
       = \<lparr>returned = None, failure = Some MaxRetries,
          trace = failedRounds P rt (clone r bb') 0 (nat (maxRetries rt))\<rparr>" .
  have "returned (RoundTrip P rt tr r) = None"
    and "failure (RoundTrip P rt tr r) = Some MaxRetries"
    and "length (attempts (trace (RoundTrip P rt tr r))) = nat (maxRetries rt)"
    unfolding RoundTrip_buffered [OF Inr] E
    by (simp_all add: attempts_append attempts_failedRounds)
  then show ?thesis by simp
qed

theorem C3_retries_exhausted_witness:
  "isl (refuses 0 (clone postRequest (Some ''a=1'')))
   \<and> isl (refuses 9 (clone postRequest (Some ''a=1'')))
   \<and> bufferBody (reqBody postRequest) = Inr (Some ''a=1'')
   \<and> returned (RoundTrip samplePlatform newRoundTripper refuses postRequest) = None
   \<and> failure (RoundTrip samplePlatform newRoundTripper refuses postRequest) = Some MaxRetries
   \<and> length (attempts (trace (RoundTrip samplePlatform newRoundTripper refuses postRequest))) = 10"
proof -
  have h: "\<forall>i req. int i < maxRetries newRoundTripper \<longrightarrow> isl (refuses i req)"
    by (simp add: refuses_def)
  have b: "bufferBody (reqBody postRequest) = Inr (Some ''a=1'')"
    by (simp add: postRequest_def)
  have m: "nat (maxRetries newRoundTripper) = 10" by (simp add: newRoundTripper_def)
  have i: "isl (refuses 0 (clone postRequest (Some ''a=1'')))"
    "isl (refuses 9 (clone postRequest (Some ''a=1'')))"
    by (simp_all add: refuses_def)
  note T = C3_retries_exhausted
    [OF h, where P = samplePlatform and r = postRequest and bb = "Some ''a=1''"]
  from T have r: "returned (RoundTrip samplePlatform newRoundTripper refuses postRequest) = None"
    by (elim conjE)
  from T [THEN conjunct2, rule_format, OF b] m
  have f: "failure (RoundTrip samplePlatform newRoundTripper refuses postRequest) = Some MaxRetries"
    and n: "length (attempts (trace (RoundTrip samplePlatform newRoundTripper refuses postRequest))) = 10"
    by simp_all
  from i b r f n show ?thesis by (intro conjI)
qed

text \<open>
  C6, as the code has it. A body that is present and is not \<open>http.NoBody\<close> is read
  to its end exactly once, before any attempt, and every request handed to the network
  is the original request with an in-memory body holding exactly the bytes read; if
  the read fails, its error is returned and no attempt is made. When the body is nil
  or \<open>http.NoBody\<close>, nothing is read and every request handed to the network is
  the original request, with no buffered body attached. A body that is present but
  delivers no byte falls under the first case: it is read, and an empty buffered
  body is attached.
\<close>

theorem C6_body_buffered_once:
  "(reqBody r = Some b \<and> b \<noteq> NoBody \<and> io_ReadAll b = Inr bs \<longrightarrow>
      (\<exists>t. trace (RoundTrip P rt tr r) = ReadBody # t \<and> ReadBody \<notin> set t
           \<and> set (attempts t) \<subseteq> {r\<lparr>reqBody := Some (Buffer bs)\<rparr>}))
   \<and> (reqBody r = Some b \<and> io_ReadAll b = Inl e \<longrightarrow>
        RoundTrip P rt tr r = \<lparr>returned = None, failure = Some e, trace = [ReadBody]\<rparr>)
   \<and> (reqBody r = None \<or> reqBody r = Some NoBody \<longrightarrow>
        ReadBody \<notin> set (trace (RoundTrip P rt tr r))
        \<and> set (attempts (trace (RoundTrip P rt tr r))) \<subseteq> {r})"
proof (intro conjI impI)
  assume a: "reqBody r = Some b \<and> b \<noteq> NoBody \<and> io_ReadAll b = Inr bs"
  then have "bufferBody (reqBody r) = Inr (Some bs)" by (cases b) auto
  from RoundTrip_trace [OF this, of P rt tr] a
  show "\<exists>t. trace (RoundTrip P rt tr r) = ReadBody # t \<and> ReadBody \<notin> set t
           \<and> set (attempts t) \<subseteq> {r\<lparr>reqBody := Some (Buffer bs)\<rparr>}"
    by (simp add: clone_def)
next
  assume a: "reqBody r = Some b \<and> io_ReadAll b = Inl e"
  then have "bufferBody (reqBody r) = Inl e" by (cases b) auto
  then show "RoundTrip P rt tr r = \<lparr>returned = None, failure = Some e, trace = [ReadBody]\<rparr>"
    by (simp add: RoundTrip_def)
next
  assume a: "reqBody r = None \<or> reqBody r = Some NoBody"
  then have "bufferBody (reqBody r) = Inr None" by auto
  from RoundTrip_trace [OF this, of P rt tr] a
  have "\<exists>t. trace (RoundTrip P rt tr r) = t \<and> ReadBody \<notin> set t \<and> set (attempts t) \<subseteq> {r}"
    by (auto simp: clone_def)
  then show "ReadBody \<notin> set (trace (RoundTrip P rt tr r))"
    and "set (attempts (trace (RoundTrip P rt tr r))) \<subseteq> {r}" by simp_all
qed

theorem C6_body_buffered_once_witness:
  "reqBody postRequest = Some (Stream ''a=1'' None) \<and> Stream ''a=1'' None \<noteq> NoBody
   \<and> io_ReadAll (Stream ''a=1'' None) = Inr ''a=1''
   \<and> trace (RoundTrip samplePlatform newRoundTripper failsTwice postRequest)
     = [ReadBody,
        RoundTripCall (postRequest\<lparr>reqBody := Some (Buffer ''a=1'')\<rparr>), Sleep (100 * Millisecond),
        RoundTripCall (postRequest\<lparr>reqBody := Some (Buffer ''a=1'')\<rparr>), Sleep (100 * Millisecond),
        RoundTripCall (postRequest\<lparr>reqBody := Some (Buffer ''a=1'')\<rparr>)]
   \<and> (\<exists>t. trace (RoundTrip samplePlatform newRoundTripper failsTwice postRequest) = ReadBody # t
           \<and> ReadBody \<notin> set t
           \<and> set (attempts t) \<subseteq> {postRequest\<lparr>reqBody := Some (Buffer ''a=1'')\<rparr>})
   \<and> reqBody getRequest = None
   \<and> ReadBody \<notin> set (trace (RoundTrip samplePlatform newRoundTripper failsTwice getRequest))
   \<and> set (attempts (trace (RoundTrip samplePlatform newRoundTripper failsTwice getRequest))) \<subseteq> {getRequest}"
proof -
  have h: "reqBody postRequest = Some (Stream ''a=1'' None) \<and> Stream ''a=1'' None \<noteq> NoBody
      \<and> io_ReadAll (Stream ''a=1'' None) = Inr ''a=1''"
    by (simp add: postRequest_def)
  have g: "reqBody getRequest = None" by (simp add: getRequest_def)
  note P = C6_body_buffered_once
    [where r = postRequest and b = "Stream ''a=1'' None" and bs = "''a=1''"
       and P = samplePlatform and rt = newRoundTripper and tr = failsTwice]
  note Q = C6_body_buffered_once
    [where r = getRequest and P = samplePlatform and rt = newRoundTripper and tr = failsTwice]
  from P h have p: "\<exists>t. trace (RoundTrip samplePlatform newRoundTripper failsTwice postRequest) = ReadBody # t
           \<and> ReadBody \<notin> set t
           \<and> set (attempts t) \<subseteq> {postRequest\<lparr>reqBody := Some (Buffer ''a=1'')\<rparr>}" by blast
  from Q g have q: "ReadBody \<notin> set (trace (RoundTrip samplePlatform newRoundTripper failsTwice getRequest))
   \<and> set (attempts (trace (RoundTrip samplePlatform newRoundTripper failsTwice getRequest))) \<subseteq> {getRequest}"
    by blast
  from h RoundTrip_failsTwice_post p g q show ?thesis by (intro conjI) simp_all
qed

text \<open>
  The claim C6 as worded says that no buffered body is attached when the original body
  was empty. A request whose body is a stream of zero bytes is read like any other,
  and the request sent carries a buffered body, which is not the body of the original.
\<close>

theorem C6_empty_body_counterexample:
  "reqBody emptyPost = Some (Stream [] None)
   \<and> io_ReadAll (Stream [] None) = Inr []
   \<and> trace (RoundTrip samplePlatform newRoundTripper (answers okResponse) emptyPost)
       = [ReadBody, RoundTripCall (emptyPost\<lparr>reqBody := Some (Buffer [])\<rparr>)]
   \<and> emptyPost\<lparr>reqBody := Some (Buffer [])\<rparr> \<noteq> emptyPost"
proof -
  have b: "bufferBody (reqBody emptyPost) = Inr (Some [])"
    by (simp add: emptyPost_def)
  have m: "int 0 < maxRetries newRoundTripper" by (simp add: newRoundTripper_def)
  have s: "answers okResponse 0 (clone emptyPost (Some [])) = Inr okResponse"
    by (simp add: answers_def)
  from retryLoop_answered [where tr = "answers okResponse" and r = emptyPost and bb = "Some []",
      OF m s]
  have E: "retryLoop samplePlatform newRoundTripper (answers okResponse) emptyPost (Some []) 0 =
      \<lparr>returned = Some (setShouldSkipResponseModificationHeader emptyPost okResponse),
         failure = None, trace = [RoundTripCall (clone emptyPost (Some []))]\<rparr>" .
  have "trace (RoundTrip samplePlatform newRoundTripper (answers okResponse) emptyPost)
       = [ReadBody, RoundTripCall (emptyPost\<lparr>reqBody := Some (Buffer [])\<rparr>)]"
    unfolding RoundTrip_buffered [OF b] E by (simp add: clone_def emptyPost_def)
  moreover have "emptyPost\<lparr>reqBody := Some (Buffer [])\<rparr> \<noteq> emptyPost"
  proof
    assume "emptyPost\<lparr>reqBody := Some (Buffer [])\<rparr> = emptyPost"
    then have "reqBody (emptyPost\<lparr>reqBody := Some (Buffer [])\<rparr>) = reqBody emptyPost" by simp
    then show False by (simp add: emptyPost_def)
  qed
  ultimately show ?thesis by (simp add: emptyPost_def)
qed

text \<open>
  C8, as the code has it. Let \<open>RoundTrip\<close> return the response \<open>resp\<close>. If the
  request carries \<open>HX-Request: true\<close>, then \<open>resp\<close> is a response of the network
  with \<open>templ-skip-modify\<close> set to \<open>true\<close>, and the rewriter leaves \<open>resp\<close> as it is.
  If the request does not carry it, the transport adds nothing: \<open>resp\<close> is the
  response of the network itself. If that is an HTML response which does not already
  carry \<open>templ-skip-modify: true\<close> and whose body can be read (and, when it is
  gzip-encoded, decompressed and compressed again), the rewriter augments it as in
  C1: the script tag goes in front of every \<open></body>\<close> of its text \<open>b\<close>, the new body
  is the new text (compressed, when gzip-encoded), and \<open>Content-Length\<close> is its length.
\<close>

theorem C8_skip_marker:
  assumes "returned (RoundTrip P rt tr r) = Some resp"
  shows "(Header_Get (reqHeader r) ''HX-Request'' = ''true'' \<longrightarrow>
            (\<exists>i req up. tr i req = Inr up
               \<and> resp = up\<lparr>Header := Header_Set (Header up) ''templ-skip-modify'' ''true''\<rparr>)
            \<and> Header_Get (Header resp) ''templ-skip-modify'' = ''true''
            \<and> modifyResponse G resp = (resp, None))
         \<and> (Header_Get (reqHeader r) ''HX-Request'' \<noteq> ''true'' \<longrightarrow>
            (\<exists>i req. tr i req = Inr resp)
            \<and> (prefix ''text/html'' (Header_Get (Header resp) ''Content-Type'')
                \<and> Header_Get (Header resp) ''templ-skip-modify'' \<noteq> ''true''
                \<and> Header_Get (Header resp) ''Content-Encoding'' \<noteq> ''gzip''
                \<and> io_ReadAll (Body resp) = Inr b \<longrightarrow>
                  modifyResponse G resp =
                    (resp\<lparr>Body := Buffer (insertBefore ''</body>'' scriptTag b),
                          ContentLength := int (length (insertBefore ''</body>'' scriptTag b)),
                          Header := (Header resp)(''Content-Length'' \<mapsto>
                            [Itoa (int (length (insertBefore ''</body>'' scriptTag b)))])\<rparr>,
                     None))
            \<and> (prefix ''text/html'' (Header_Get (Header resp) ''Content-Type'')
                \<and> Header_Get (Header resp) ''templ-skip-modify'' \<noteq> ''true''
                \<and> Header_Get (Header resp) ''Content-Encoding'' = ''gzip''
                \<and> gunzip G (Body resp) = Inr b
                \<and> gzipped G (insertBefore ''</body>'' scriptTag b) = Inr z \<longrightarrow>
                  modifyResponse G resp =
                    (resp\<lparr>Body := Buffer z,
                          ContentLength := int (length z),
                          Header := (Header resp)(''Content-Length'' \<mapsto> [Itoa (int (length z))])\<rparr>,
                     None)))"
proof -
  from RoundTrip_returned [OF assms] obtain i req up
    where up: "tr i req = Inr up" "resp = setShouldSkipResponseModificationHeader r up" by blast
  show ?thesis
  proof (cases "Header_Get (reqHeader r) ''HX-Request'' = ''true''")
    case True
    with up(2) have r: "resp = up\<lparr>Header := Header_Set (Header up) ''templ-skip-modify'' ''true''\<rparr>"
      by (simp add: setShouldSkipResponseModificationHeader_def)
    then have g: "Header_Get (Header resp) ''templ-skip-modify'' = ''true''"
      by (simp add: Header_Get_Set_same)
    then have m: "modifyResponse G resp = (resp, None)" by (simp add: modifyResponse_def)
    from up(1) r have "\<exists>i req up. tr i req = Inr up
        \<and> resp = up\<lparr>Header := Header_Set (Header up) ''templ-skip-modify'' ''true''\<rparr>" by blast
    with True g m show ?thesis by blast
  next
    case False
    with up(2) have "resp = up" by (simp add: setShouldSkipResponseModificationHeader_def)
    with up(1) have e: "\<exists>i req. tr i req = Inr resp" by blast
    have p: "prefix ''text/html'' (Header_Get (Header resp) ''Content-Type'')
                \<and> Header_Get (Header resp) ''templ-skip-modify'' \<noteq> ''true''
                \<and> Header_Get (Header resp) ''Content-Encoding'' \<noteq> ''gzip''
                \<and> io_ReadAll (Body resp) = Inr b \<longrightarrow>
                  modifyResponse G resp =
                    (resp\<lparr>Body := Buffer (insertBefore ''</body>'' scriptTag b),
                          ContentLength := int (length (insertBefore ''</body>'' scriptTag b)),
                          Header := (Header resp)(''Content-Length'' \<mapsto>
                            [Itoa (int (length (insertBefore ''</body>'' scriptTag b)))])\<rparr>,
                     None)"
      by (simp add: modifyResponse_def updatePlainResponse_read insertScriptTagIntoBody_eq)
    have z: "prefix ''text/html'' (Header_Get (Header resp) ''Content-Type'')
                \<and> Header_Get (Header resp) ''templ-skip-modify'' \<noteq> ''true''
                \<and> Header_Get (Header resp) ''Content-Encoding'' = ''gzip''
                \<and> gunzip G (Body resp) = Inr b
                \<and> gzipped G (insertBefore ''</body>'' scriptTag b) = Inr z \<longrightarrow>
                  modifyResponse G resp =
                    (resp\<lparr>Body := Buffer z,
                          ContentLength := int (length z),
                          Header := (Header resp)(''Content-Length'' \<mapsto> [Itoa (int (length z))])\<rparr>,
                     None)"
      by (simp add: modifyResponse_def updateGzipResponse_ok insertScriptTagIntoBody_eq)
    from False e p z show ?thesis by blast
  qed
qed

theorem C8_skip_marker_witness:
  "Header_Get (reqHeader htmxRequest) ''HX-Request'' = ''true''
   \<and> returned (RoundTrip samplePlatform newRoundTripper (answers page) htmxRequest)
       = Some (page\<lparr>Header := Header_Set (Header page) ''templ-skip-modify'' ''true''\<rparr>)
   \<and> modifyResponse storedGzip
        (page\<lparr>Header := Header_Set (Header page) ''templ-skip-modify'' ''true''\<rparr>)
       = (page\<lparr>Header := Header_Set (Header page) ''templ-skip-modify'' ''true''\<rparr>, None)
   \<and> Header_Get (reqHeader getRequest) ''HX-Request'' \<noteq> ''true''
   \<and> returned (RoundTrip samplePlatform newRoundTripper (answers page) getRequest) = Some page
   \<and> modifyResponse storedGzip page =
        (page\<lparr>Body := Buffer (''<html><body>hi'' @ scriptTag @ ''</body></html>''),
              ContentLength := 76,
              Header := (Header page)(''Content-Length'' \<mapsto> [''76''])\<rparr>,
         None)
   \<and> returned (RoundTrip samplePlatform newRoundTripper (answers gzipPage) getRequest)
       = Some gzipPage
   \<and> modifyResponse storedGzip gzipPage =
        (gzipPage\<lparr>Body := Buffer (gzipMagic @ ''<p>hi</p>'' @ scriptTag @ ''</body>''),
              ContentLength := 66,
              Header := (Header gzipPage)(''Content-Length'' \<mapsto> [''66''])\<rparr>,
         None)"
proof -
  let ?tagged = "page\<lparr>Header := Header_Set (Header page) ''templ-skip-modify'' ''true''\<rparr>"
  have hx: "Header_Get (reqHeader htmxRequest) ''HX-Request'' = ''true''"
    by (simp add: htmxRequest_def Header_Get_def canonical_keys)
  have nohx: "Header_Get (reqHeader getRequest) ''HX-Request'' \<noteq> ''true''"
    by (simp add: getRequest_def Header_Get_def)
  have b1: "bufferBody (reqBody htmxRequest) = Inr None"
    by (simp add: htmxRequest_def getRequest_def)
  have b2: "bufferBody (reqBody getRequest) = Inr None" by (simp add: getRequest_def)
  have r1: "returned (RoundTrip samplePlatform newRoundTripper (answers page) htmxRequest)
      = Some ?tagged"
    using RoundTrip_answers [OF b1, of page] hx
    by (simp add: setShouldSkipResponseModificationHeader_def)
  have r2: "returned (RoundTrip samplePlatform newRoundTripper (answers page) getRequest)
      = Some page"
    using RoundTrip_answers [OF b2, of page] nohx
    by (simp add: setShouldSkipResponseModificationHeader_def)
  have r3: "returned (RoundTrip samplePlatform newRoundTripper (answers gzipPage) getRequest)
      = Some gzipPage"
    using RoundTrip_answers [OF b2, of gzipPage] nohx
    by (simp add: setShouldSkipResponseModificationHeader_def)
  have ins: "insertBefore ''</body>'' scriptTag ''<html><body>hi</body></html>''
      = ''<html><body>hi'' @ scriptTag @ ''</body></html>''"
    "insertBefore ''</body>'' scriptTag ''<p>hi</p></body>'' = ''<p>hi</p>'' @ scriptTag @ ''</body>''"
    by simp_all
  have itoa: "Itoa 76 = ''76''" "Itoa 66 = ''66''" by (simp_all add: Itoa_def)
  note T1 = C8_skip_marker [OF r1, where G = storedGzip]
  from T1 [THEN conjunct1, rule_format, OF hx]
  have m1: "modifyResponse storedGzip ?tagged = (?tagged, None)" by (elim conjE)
  have pg1: "prefix ''text/html'' (Header_Get (Header page) ''Content-Type'')"
    and pg2: "Header_Get (Header page) ''templ-skip-modify'' \<noteq> ''true''"
    and pg3: "Header_Get (Header page) ''Content-Encoding'' \<noteq> ''gzip''"
    by (simp_all add: Header_Get_page)
  have pg4: "io_ReadAll (Body page) = Inr ''<html><body>hi</body></html>''"
    by (simp add: page_def)
  from pg1 pg2 pg3 pg4
  have pg: "prefix ''text/html'' (Header_Get (Header page) ''Content-Type'')
      \<and> Header_Get (Header page) ''templ-skip-modify'' \<noteq> ''true''
      \<and> Header_Get (Header page) ''Content-Encoding'' \<noteq> ''gzip''
      \<and> io_ReadAll (Body page) = Inr ''<html><body>hi</body></html>''"
    by (intro conjI)
  note T2 = C8_skip_marker
    [OF r2, where G = storedGzip and b = "''<html><body>hi</body></html>''"]
  from T2 [THEN conjunct2, rule_format, OF nohx, THEN conjunct2, THEN conjunct1, rule_format,
      OF pg]
  have m2: "modifyResponse storedGzip page =
        (page\<lparr>Body := Buffer (''<html><body>hi'' @ scriptTag @ ''</body></html>''),
              ContentLength := 76,
              Header := (Header page)(''Content-Length'' \<mapsto> [''76''])\<rparr>,
         None)"
    unfolding ins by (simp add: length_constants itoa)
  have gz1: "prefix ''text/html'' (Header_Get (Header gzipPage) ''Content-Type'')"
    and gz2: "Header_Get (Header gzipPage) ''templ-skip-modify'' \<noteq> ''true''"
    and gz3: "Header_Get (Header gzipPage) ''Content-Encoding'' = ''gzip''"
    by (simp_all add: Header_Get_gzipPage)
  have gz4: "gunzip storedGzip (Body gzipPage) = Inr ''<p>hi</p></body>''"
    by (simp add: gzipPage_def gunzip_storedGzip_Stream)
  have gz5: "gzipped storedGzip (insertBefore ''</body>'' scriptTag ''<p>hi</p></body>'')
          = Inr (gzipMagic @ ''<p>hi</p>'' @ scriptTag @ ''</body>'')"
    unfolding ins by (rule gzipped_storedGzip)
  from gz1 gz2 gz3 gz4 gz5
  have gz: "prefix ''text/html'' (Header_Get (Header gzipPage) ''Content-Type'')
      \<and> Header_Get (Header gzipPage) ''templ-skip-modify'' \<noteq> ''true''
      \<and> Header_Get (Header gzipPage) ''Content-Encoding'' = ''gzip''
      \<and> gunzip storedGzip (Body gzipPage) = Inr ''<p>hi</p></body>''
      \<and> gzipped storedGzip (insertBefore ''</body>'' scriptTag ''<p>hi</p></body>'')
          = Inr (gzipMagic @ ''<p>hi</p>'' @ scriptTag @ ''</body>'')"
    by (intro conjI)
  note T3 = C8_skip_marker
    [OF r3, where G = storedGzip and b = "''<p>hi</p></body>''"
       and z = "gzipMagic @ ''<p>hi</p>'' @ scriptTag @ ''</body>''"]
  from T3 [THEN conjunct2, rule_format, OF nohx, THEN conjunct2, THEN conjunct2, rule_format,
      OF gz]
  have m3: "modifyResponse storedGzip gzipPage =
        (gzipPage\<lparr>Body := Buffer (gzipMagic @ ''<p>hi</p>'' @ scriptTag @ ''</body>''),
              ContentLength := 66,
              Header := (Header gzipPage)(''Content-Length'' \<mapsto> [''66''])\<rparr>,
         None)"
    by (simp add: length_constants itoa)
  from hx r1 m1 nohx r2 m2 r3 m3 show ?thesis by (intro conjI)
qed

text \<open>
  The claim C8 as worded says that for a request without the marker header an HTML
  response is augmented. The rewriter looks only at the response: when the upstream
  server itself sends \<open>templ-skip-modify: true\<close>, the HTML page is passed on without
  the script tag although the request had no \<open>HX-Request\<close> header. And an HTML page
  whose body breaks off with a read error is not augmented either: the rewriter
  returns the read error.
\<close>

theorem C8_not_augmented_counterexample:
  "Header_Get (reqHeader getRequest) ''HX-Request'' \<noteq> ''true''
   \<and> returned (RoundTrip samplePlatform newRoundTripper (answers taggedPage) getRequest)
       = Some taggedPage
   \<and> prefix ''text/html'' (Header_Get (Header taggedPage) ''Content-Type'')
   \<and> io_ReadAll (Body taggedPage) = Inr ''<html><body>hi</body></html>''
   \<and> modifyResponse storedGzip taggedPage = (taggedPage, None)
   \<and> returned (RoundTrip samplePlatform newRoundTripper (answers brokenPage) getRequest)
       = Some brokenPage
   \<and> prefix ''text/html'' (Header_Get (Header brokenPage) ''Content-Type'')
   \<and> Header_Get (Header brokenPage) ''templ-skip-modify'' \<noteq> ''true''
   \<and> modifyResponse storedGzip brokenPage
       = (brokenPage\<lparr>Body := Stream [] (Some (External ''connection reset''))\<rparr>,
          Some (External ''connection reset''))"
proof -
  have nohx: "Header_Get (reqHeader getRequest) ''HX-Request'' \<noteq> ''true''"
    by (simp add: getRequest_def Header_Get_def)
  have b: "bufferBody (reqBody getRequest) = Inr None" by (simp add: getRequest_def)
  have r: "returned (RoundTrip samplePlatform newRoundTripper (answers taggedPage) getRequest)
      = Some taggedPage"
    using RoundTrip_answers [OF b, of taggedPage] nohx
    by (simp add: setShouldSkipResponseModificationHeader_def)
  have ct: "prefix ''text/html'' (Header_Get (Header taggedPage) ''Content-Type'')"
    by (simp add: taggedPage_def Header_Get_def canonical_keys)
  have rd: "io_ReadAll (Body taggedPage) = Inr ''<html><body>hi</body></html>''"
    by (simp add: taggedPage_def page_def)
  have sk: "Header_Get (Header taggedPage) ''templ-skip-modify'' = ''true''"
    by (simp add: taggedPage_def Header_Get_def canonical_keys)
  then have m: "modifyResponse storedGzip taggedPage = (taggedPage, None)"
    by (simp add: modifyResponse_def)
  have r': "returned (RoundTrip samplePlatform newRoundTripper (answers brokenPage) getRequest)
      = Some brokenPage"
    using RoundTrip_answers [OF b, of brokenPage] nohx
    by (simp add: setShouldSkipResponseModificationHeader_def)
  have h: "prefix ''text/html'' (Header_Get (Header brokenPage) ''Content-Type'')"
    "Header_Get (Header brokenPage) ''templ-skip-modify'' \<noteq> ''true''"
    "Header_Get (Header brokenPage) ''Content-Encoding'' \<noteq> ''gzip''"
    by (simp_all add: brokenPage_def page_def Header_Get_def canonical_keys)
  have bd: "Body brokenPage = Stream ''<html><body>hi</body>'' (Some (External ''connection reset''))"
    by (simp add: brokenPage_def)
  have m': "modifyResponse storedGzip brokenPage
       = (brokenPage\<lparr>Body := Stream [] (Some (External ''connection reset''))\<rparr>,
          Some (External ''connection reset''))"
    using h by (simp add: modifyResponse_def updatePlainResponse_def bd drained_def)
  from nohx r ct rd m r' h(1,2) m' show ?thesis by (intro conjI)
qed

section \<open>\<open>NotifyProxy\<close>\<close>

text \<open>
  C10. \<open>NotifyProxy\<close> returns nil whenever the request could be built and the
  client returned a response, whatever the response is (its status code is not looked
  at); it returns an error exactly when building the request or the exchange fails,
  and then it is that error.
\<close>

theorem C10_notify_ignores_status:
  "(http_NewRequest ''POST'' (''http://'' @ host @ '':'' @ Itoa port @ ''/_templ/reload/events'')
       = Inr req \<and> client_Do req = Inr resp \<longrightarrow>
      NotifyProxy http_NewRequest client_Do host port = None)
   \<and> (http_NewRequest ''POST'' (''http://'' @ host @ '':'' @ Itoa port @ ''/_templ/reload/events'')
       = Inl e \<longrightarrow>
      NotifyProxy http_NewRequest client_Do host port = Some e)
   \<and> (http_NewRequest ''POST'' (''http://'' @ host @ '':'' @ Itoa port @ ''/_templ/reload/events'')
       = Inr req \<and> client_Do req = Inl e \<longrightarrow>
      NotifyProxy http_NewRequest client_Do host port = Some e)
   \<and> (NotifyProxy http_NewRequest client_Do host port \<noteq> None \<longrightarrow>
      (case http_NewRequest ''POST''
              (''http://'' @ host @ '':'' @ Itoa port @ ''/_templ/reload/events'') of
         Inl e' \<Rightarrow> True
       | Inr req' \<Rightarrow> isl (client_Do req')))"
  by (simp add: NotifyProxy_def split: sum.splits)

theorem C10_notify_ignores_status_witness:
  "newRequest ''POST'' ''http://localhost:7331/_templ/reload/events''
     = Inr \<lparr>Method = ''POST'', URL = ''http://localhost:7331/_templ/reload/events'',
            reqHeader = Map.empty, reqBody = None\<rparr>
   \<and> StatusCode serverError = 500
   \<and> NotifyProxy newRequest (\<lambda>req. Inr serverError) ''localhost'' 7331 = None
   \<and> NotifyProxy newRequest (\<lambda>req. Inl (External ''connection refused'')) ''localhost'' 7331
       = Some (External ''connection refused'')"
proof -
  have u: "''http://'' @ ''localhost'' @ '':'' @ Itoa 7331 @ ''/_templ/reload/events''
      = ''http://localhost:7331/_templ/reload/events''" by (simp add: Itoa_def)
  have n: "newRequest ''POST'' ''http://localhost:7331/_templ/reload/events''
     = Inr \<lparr>Method = ''POST'', URL = ''http://localhost:7331/_templ/reload/events'',
            reqHeader = Map.empty, reqBody = None\<rparr>" by (simp add: newRequest_def)
  have s: "StatusCode serverError = 500" by (simp add: serverError_def)
  note A = C10_notify_ignores_status
    [of newRequest "''localhost''" 7331 _ "\<lambda>req. Inr serverError" serverError, unfolded u]
  note B = C10_notify_ignores_status
    [of newRequest "''localhost''" 7331 _ "\<lambda>req. Inl (External ''connection refused'')" _
      "External ''connection refused''", unfolded u]
  from n have "newRequest ''POST'' ''http://localhost:7331/_templ/reload/events''
     = Inr \<lparr>Method = ''POST'', URL = ''http://localhost:7331/_templ/reload/events'',
            reqHeader = Map.empty, reqBody = None\<rparr>
     \<and> (\<lambda>req. Inr serverError :: error + response)
           \<lparr>Method = ''POST'', URL = ''http://localhost:7331/_templ/reload/events'',
            reqHeader = Map.empty, reqBody = None\<rparr> = Inr serverError" by simp
  from A [THEN conjunct1, rule_format, OF this]
  have a: "NotifyProxy newRequest (\<lambda>req. Inr serverError) ''localhost'' 7331 = None" .
  from n have "newRequest ''POST'' ''http://localhost:7331/_templ/reload/events''
     = Inr \<lparr>Method = ''POST'', URL = ''http://localhost:7331/_templ/reload/events'',
            reqHeader = Map.empty, reqBody = None\<rparr>
     \<and> (\<lambda>req. Inl (External ''connection refused'') :: error + response)
           \<lparr>Method = ''POST'', URL = ''http://localhost:7331/_templ/reload/events'',
            reqHeader = Map.empty, reqBody = None\<rparr> = Inl (External ''connection refused'')"
    by simp
  from B [THEN conjunct2, THEN conjunct2, THEN conjunct1, rule_format, OF this]
  have b:
    "NotifyProxy newRequest (\<lambda>req. Inl (External ''connection refused'')) ''localhost'' 7331
       = Some (External ''connection refused'')" .
  from n s a b show ?thesis by (intro conjI)
qed

end
